theory Spec2Isabelle
  imports Complex_Main "HOL-Library.Sublist"
begin

section \<open>The RAG pipeline of cogbase: \<^verbatim>\<open>server/rag.ts\<close> over \<^verbatim>\<open>server/db.ts\<close>\<close>

text \<open>
  The development embeds the chunker, the placeholder embedder, the cosine similarity,
  the retriever and the indexer of \<^verbatim>\<open>server/rag.ts\<close>, together with the storage
  functions of \<^verbatim>\<open>server/db.ts\<close> they call, and proves what the code does.

  Conventions of the embedding.
  \<^item> A JavaScript string is the list of its UTF-16 code units (\<open>jsstring\<close>); the chunker
    is polymorphic in the unit type, since it only slices.
  \<^item> A JavaScript number that is finite is a \<open>real\<close>: rounding and overflow of IEEE
    doubles are not modelled. The results of a division, which may be \<^verbatim>\<open>NaN\<close> or
    infinite, are values of \<open>jsnumber\<close>.
  \<^item> \<^verbatim>\<open>String.prototype.toLowerCase\<close> is a built-in of the platform; it is a parameter
    \<open>toLowerCase\<close> of every function that reaches the embedder.
  \<^item> A promise that rejects (a \<^verbatim>\<open>throw\<close>) is the value \<open>Inl e\<close>, one that resolves is
    \<open>Inr v\<close>; the database is part of an explicit \<open>world\<close> that every storage function
    takes and returns.
\<close>

subsection \<open>JavaScript built-ins used by the code\<close>

type_synonym jsstring = "nat list"

text \<open>
  \<^verbatim>\<open>slice(start, end)\<close> of strings and arrays: a negative index counts from the end,
  every index is clipped to the length, and an empty range gives the empty result.
\<close>

definition js_slice :: "'a list \<Rightarrow> int \<Rightarrow> int \<Rightarrow> 'a list" where
  "js_slice xs start fin =
     (let len = int (length xs);
          from = (if start < 0 then max (len + start) 0 else min start len);
          to = (if fin < 0 then max (len + fin) 0 else min fin len)
      in take (nat (to - from)) (drop (nat from) xs))"

text \<open>\<^verbatim>\<open>Array.prototype.join(sep)\<close> on an array of strings.\<close>

fun js_join :: "'a list \<Rightarrow> 'a list list \<Rightarrow> 'a list" where
  "js_join sep [] = []"
| "js_join sep [x] = x"
| "js_join sep (x # y # ys) = x @ sep @ js_join sep (y # ys)"

text \<open>
  The values a numeric expression of the code can take once a division is involved.
  \<open>js_div\<close> is \<^verbatim>\<open>x / y\<close> on finite operands with a non-negative-zero divisor (the only
  divisor of the code is a product of square roots): \<^verbatim>\<open>0 / 0\<close> is \<^verbatim>\<open>NaN\<close> and
  \<^verbatim>\<open>x / 0\<close> is an infinity of the sign of \<open>x\<close>.
\<close>

datatype jsnumber = Num real | PosInf | NegInf | NaN

definition js_div :: "real \<Rightarrow> real \<Rightarrow> jsnumber" where
  "js_div x y =
     (if y \<noteq> 0 then Num (x / y)
      else if x = 0 then NaN
      else if 0 < x then PosInf else NegInf)"

text \<open>\<^verbatim>\<open>x >= t\<close> for a finite \<open>t\<close>: every comparison with \<^verbatim>\<open>NaN\<close> is false.\<close>

fun js_ge :: "jsnumber \<Rightarrow> real \<Rightarrow> bool" where
  "js_ge (Num x) t = (t \<le> x)"
| "js_ge PosInf t = True"
| "js_ge NegInf t = False"
| "js_ge NaN t = False"

text \<open>\<^verbatim>\<open>x - y\<close>.\<close>

fun js_sub :: "jsnumber \<Rightarrow> jsnumber \<Rightarrow> jsnumber" where
  "js_sub (Num x) (Num y) = Num (x - y)"
| "js_sub NaN y = NaN"
| "js_sub x NaN = NaN"
| "js_sub PosInf PosInf = NaN"
| "js_sub NegInf NegInf = NaN"
| "js_sub PosInf y = PosInf"
| "js_sub NegInf y = NegInf"
| "js_sub (Num x) PosInf = NegInf"
| "js_sub (Num x) NegInf = PosInf"

text \<open>
  \<^verbatim>\<open>Array.prototype.sort(cmp)\<close>. The comparator's result \<open>v\<close> orders \<open>b\<close> before \<open>a\<close>
  when \<open>v > 0\<close>; a \<^verbatim>\<open>NaN\<close> result counts as \<open>0\<close>. The sort is stable (ECMAScript 2019),
  and it is modelled by the stable insertion sort: an element moves right only past
  the elements the comparator orders strictly before it.
\<close>

fun js_positive :: "jsnumber \<Rightarrow> bool" where
  "js_positive (Num x) = (0 < x)"
| "js_positive PosInf = True"
| "js_positive NegInf = False"
| "js_positive NaN = False"

fun js_insert :: "('a \<Rightarrow> 'a \<Rightarrow> jsnumber) \<Rightarrow> 'a \<Rightarrow> 'a list \<Rightarrow> 'a list" where
  "js_insert cmp x [] = [x]"
| "js_insert cmp x (y # ys) =
     (if js_positive (cmp x y) then y # js_insert cmp x ys else x # y # ys)"

definition js_sort :: "('a \<Rightarrow> 'a \<Rightarrow> jsnumber) \<Rightarrow> 'a list \<Rightarrow> 'a list" where
  "js_sort cmp xs = foldr (js_insert cmp) xs []"

text \<open>
  The ASCII fragment of \<^verbatim>\<open>toLowerCase\<close>, a concrete instance of the parameter for the
  examples below.
\<close>

definition ascii_toLowerCase :: "jsstring \<Rightarrow> jsstring" where
  "ascii_toLowerCase s = map (\<lambda>c. if 65 \<le> c \<and> c \<le> 90 then c + 32 else c) s"

subsection \<open>\<^verbatim>\<open>cosineSimilarity\<close> and \<^verbatim>\<open>createSimpleEmbedding\<close>\<close>

text \<open>
  \<^verbatim>\<open>cosineSimilarity(a, b)\<close>: \<open>0\<close> on a length mismatch; otherwise one loop accumulates
  the dot product and the two squared norms, and the result is the quotient
  \<^verbatim>\<open>dotProduct / (Math.sqrt(normA) * Math.sqrt(normB))\<close>, with no test of the divisor.
\<close>

definition cosine_sums :: "real list \<Rightarrow> real list \<Rightarrow> real \<times> real \<times> real" where
  "cosine_sums a b =
     foldl (\<lambda>(dotProduct, normA, normB) (x, y).
              (dotProduct + x * y, normA + x * x, normB + y * y))
           (0, 0, 0) (zip a b)"

definition cosineSimilarity :: "real list \<Rightarrow> real list \<Rightarrow> jsnumber" where
  "cosineSimilarity a b =
     (if length a \<noteq> length b then Num 0
      else case cosine_sums a b of
             (dotProduct, normA, normB) \<Rightarrow> js_div dotProduct (sqrt normA * sqrt normB))"

text \<open>
  \<^verbatim>\<open>createSimpleEmbedding(text)\<close>: a histogram with 128 buckets of the code units of the
  lowercased text, bucket \<^verbatim>\<open>charCode % 128\<close>, divided by its Euclidean norm when the
  norm is positive and all zeros otherwise.
\<close>

definition char_histogram :: "jsstring \<Rightarrow> real list" where
  "char_histogram normalized =
     foldl (\<lambda>embedding charCode.
              embedding[charCode mod 128 := embedding ! (charCode mod 128) + 1])
           (replicate 128 0) normalized"

definition createSimpleEmbedding :: "(jsstring \<Rightarrow> jsstring) \<Rightarrow> jsstring \<Rightarrow> real list" where
  "createSimpleEmbedding toLowerCase text =
     (let embedding = char_histogram (toLowerCase text);
          magnitude = sqrt (foldl (\<lambda>sum val. sum + val * val) 0 embedding)
      in map (\<lambda>val. if magnitude > 0 then val / magnitude else 0) embedding)"

subsection \<open>\<^verbatim>\<open>chunkText\<close>\<close>

text \<open>
  The \<^verbatim>\<open>while\<close> loop of \<^verbatim>\<open>chunkText\<close>, with the loop variables \<open>start\<close> and \<open>chunks\<close>
  as arguments. The result is \<open>None\<close> when the loop does not return. Both callers
  pass the chunk size and the overlap, so the defaults \<open>512\<close> and \<open>50\<close> of omitted
  arguments are not part of the model.
\<close>

partial_function (option) chunk_loop ::
  "'a list \<Rightarrow> int \<Rightarrow> int \<Rightarrow> int \<Rightarrow> 'a list list \<Rightarrow> 'a list list option" where
  "chunk_loop text chunkSize overlap start chunks =
     (if start < int (length text) then
        (let end = min (start + chunkSize) (int (length text));
             chunk = js_slice text start end;
             chunks' = chunks @ [chunk];
             nextStart = end - overlap
         in if nextStart \<le> start \<or> end \<ge> int (length text) then Some chunks'
            else chunk_loop text chunkSize overlap nextStart chunks')
      else Some chunks)"

declare chunk_loop.simps [code]

definition chunkText :: "'a list \<Rightarrow> int \<Rightarrow> int \<Rightarrow> 'a list list option" where
  "chunkText text chunkSize overlap = chunk_loop text chunkSize overlap 0 []"

subsection \<open>The tables of \<^verbatim>\<open>drizzle/schema.ts\<close>\<close>

text \<open>
  The rows of \<^verbatim>\<open>trainingDocuments\<close>, \<^verbatim>\<open>ragConfigurations\<close> and \<^verbatim>\<open>vectorEmbeddings\<close>,
  with the columns the RAG code reads or writes (file name, type, size, URL, metadata
  and the timestamps of a document, and the timestamps of a configuration, are carried
  by no function below and are left out). A nullable column is an \<open>option\<close>. The
  \<^verbatim>\<open>decimal\<close> column \<^verbatim>\<open>similarityThreshold\<close> is held as the number its string denotes.
\<close>

datatype doc_status = pending | processing | completed | failed

record trainingDocument =
  doc_id :: nat
  doc_agentId :: nat
  doc_userId :: nat
  doc_content :: jsstring
  doc_status :: doc_status
  doc_chunkCount :: "nat option"

record ragConfiguration =
  cfg_id :: nat
  cfg_agentId :: nat
  cfg_enabled :: int
  cfg_chunkSize :: "int option"
  cfg_chunkOverlap :: "int option"
  cfg_topK :: "int option"
  cfg_similarityThreshold :: "real option"
  cfg_embeddingModel :: "string option"

record vectorEmbedding =
  emb_id :: nat
  emb_documentId :: nat
  emb_agentId :: nat
  emb_chunkIndex :: nat
  emb_content :: jsstring
  emb_embedding :: "real list option"
  emb_metadata_chunkSize :: "nat option"
  emb_createdAt :: int

text \<open>
  \<^verbatim>\<open>InsertVectorEmbedding\<close> as \<^verbatim>\<open>processDocumentForRAG\<close> fills it: the id and the creation
  time are given by the database.
\<close>

record insertVectorEmbedding =
  ins_documentId :: nat
  ins_agentId :: nat
  ins_chunkIndex :: nat
  ins_content :: jsstring
  ins_embedding :: "real list"
  ins_metadata_chunkSize :: nat

text \<open>\<^verbatim>\<open>Partial<InsertTrainingDocument>\<close> as the indexer uses it: the fields to set.\<close>

record documentPatch =
  patch_status :: "doc_status option"
  patch_chunkCount :: "nat option"

subsection \<open>The database and its failures\<close>

text \<open>
  The state outside the code. \<open>connected\<close> says whether \<^verbatim>\<open>getDb()\<close> yields a handle
  (it yields \<^verbatim>\<open>null\<close> without \<^verbatim>\<open>DATABASE_URL\<close>). Every query sent to the database is
  numbered in the order of issue; \<open>faults\<close> lists the numbers of the queries the
  database rejects (an unreachable or failing server), \<open>issued\<close> counts the queries sent
  so far, and \<open>clock\<close> gives the database's time at each query. A rejected query
  changes no table. \<open>TypeError\<close> is the error of reading a property of \<^verbatim>\<open>undefined\<close>.
\<close>

datatype error = DatabaseNotAvailable | QueryFailed nat | TypeError

record world =
  connected :: bool
  faults :: "nat list"
  issued :: nat
  clock :: "nat \<Rightarrow> int"
  trainingDocuments :: "trainingDocument list"
  ragConfigurations :: "ragConfiguration list"
  vectorEmbeddings :: "vectorEmbedding list"
  nextConfigId :: nat
  nextEmbeddingId :: nat

type_synonym 'a io = "world \<Rightarrow> (error + 'a) \<times> world"

definition io_return :: "'a \<Rightarrow> 'a io" where
  "io_return x w = (Inr x, w)"

definition io_throw :: "error \<Rightarrow> 'a io" where
  "io_throw e w = (Inl e, w)"

text \<open>\<^verbatim>\<open>await m; f\<close>: a rejection of \<open>m\<close> skips \<open>f\<close>.\<close>

definition io_bind :: "'a io \<Rightarrow> ('a \<Rightarrow> 'b io) \<Rightarrow> 'b io" where
  "io_bind m f w = (case m w of (Inl e, w') \<Rightarrow> (Inl e, w') | (Inr x, w') \<Rightarrow> f x w')"

text \<open>\<^verbatim>\<open>try { m } catch (error) { h(error) }\<close>.\<close>

definition io_catch :: "'a io \<Rightarrow> (error \<Rightarrow> 'a io) \<Rightarrow> 'a io" where
  "io_catch m h w = (case m w of (Inl e, w') \<Rightarrow> h e w' | (Inr x, w') \<Rightarrow> (Inr x, w'))"

text \<open>One query: it takes the next number, and is rejected when that number is a fault.\<close>

definition query :: "(world \<Rightarrow> 'a \<times> world) \<Rightarrow> 'a io" where
  "query q w =
     (let n = issued w
      in if n \<in> set (faults w) then (Inl (QueryFailed n), w\<lparr>issued := Suc n\<rparr>)
         else case q w of (x, w') \<Rightarrow> (Inr x, w'\<lparr>issued := Suc n\<rparr>))"

subsection \<open>The storage functions of \<^verbatim>\<open>server/db.ts\<close>\<close>

definition apply_patch :: "documentPatch \<Rightarrow> trainingDocument \<Rightarrow> trainingDocument" where
  "apply_patch data d =
     d\<lparr>doc_status := (case patch_status data of None \<Rightarrow> doc_status d | Some s \<Rightarrow> s),
       doc_chunkCount := (case patch_chunkCount data of None \<Rightarrow> doc_chunkCount d
                          | Some n \<Rightarrow> Some n)\<rparr>"

text \<open>
  \<^verbatim>\<open>updateTrainingDocument(id, data)\<close>: without a database it returns \<^verbatim>\<open>undefined\<close>;
  otherwise an \<^verbatim>\<open>UPDATE\<close> of the rows with that id, then a \<^verbatim>\<open>SELECT\<close> of them, of which
  it returns the first, if any.
\<close>

definition updateTrainingDocument :: "nat \<Rightarrow> documentPatch \<Rightarrow> trainingDocument option io" where
  "updateTrainingDocument ident data w =
     (if \<not> connected w then io_return None w
      else io_bind
             (query (\<lambda>w. ((), w\<lparr>trainingDocuments :=
                 map (\<lambda>d. if doc_id d = ident then apply_patch data d else d)
                     (trainingDocuments w)\<rparr>)))
             (\<lambda>_. io_bind
                (query (\<lambda>w. (filter (\<lambda>d. doc_id d = ident) (trainingDocuments w), w)))
                (\<lambda>updated. io_return (case updated of [] \<Rightarrow> None | d # _ \<Rightarrow> Some d))) w)"

text \<open>
  \<^verbatim>\<open>deleteTrainingDocument(id, userId)\<close>: one \<^verbatim>\<open>DELETE\<close> on \<^verbatim>\<open>trainingDocuments\<close>, of the
  rows with that id and that owner; nothing without a database.
\<close>

definition deleteTrainingDocument :: "nat \<Rightarrow> nat \<Rightarrow> unit io" where
  "deleteTrainingDocument ident userId w =
     (if \<not> connected w then io_return () w
      else query (\<lambda>w. ((), w\<lparr>trainingDocuments :=
             filter (\<lambda>d. \<not> (doc_id d = ident \<and> doc_userId d = userId))
                    (trainingDocuments w)\<rparr>)) w)"

text \<open>
  \<^verbatim>\<open>getOrCreateRagConfig(agentId)\<close>: it throws without a database; it returns the first
  configuration of the agent, or inserts the defaults and returns \<^verbatim>\<open>inserted[0]\<close> of the
  rows read back by the new id (\<open>None\<close> is \<^verbatim>\<open>undefined\<close>, were that array empty).
\<close>

definition default_config :: "nat \<Rightarrow> nat \<Rightarrow> ragConfiguration" where
  "default_config ident agentId =
     \<lparr>cfg_id = ident, cfg_agentId = agentId, cfg_enabled = 1, cfg_chunkSize = Some 512,
      cfg_chunkOverlap = Some 50, cfg_topK = Some 3,
      cfg_similarityThreshold = Some (7 / 10),
      cfg_embeddingModel = Some ''text-embedding-ada-002''\<rparr>"

definition getOrCreateRagConfig :: "nat \<Rightarrow> ragConfiguration option io" where
  "getOrCreateRagConfig agentId w =
     (if \<not> connected w then io_throw DatabaseNotAvailable w
      else io_bind
             (query (\<lambda>w. (filter (\<lambda>c. cfg_agentId c = agentId) (ragConfigurations w), w)))
             (\<lambda>existing. case existing of
                c # _ \<Rightarrow> io_return (Some c)
              | [] \<Rightarrow>
                  io_bind
                    (query (\<lambda>w. (nextConfigId w,
                       w\<lparr>ragConfigurations :=
                            ragConfigurations w @ [default_config (nextConfigId w) agentId],
                         nextConfigId := Suc (nextConfigId w)\<rparr>)))
                    (\<lambda>insertedId. io_bind
                       (query (\<lambda>w. (filter (\<lambda>c. cfg_id c = insertedId)
                                             (ragConfigurations w), w)))
                       (\<lambda>inserted. io_return (case inserted of
                          c # _ \<Rightarrow> Some c | [] \<Rightarrow> None)))) w)"

text \<open>
  \<^verbatim>\<open>createVectorEmbedding(embedding)\<close>: it throws without a database; an \<^verbatim>\<open>INSERT\<close> gives
  the row the next id and the time of the query, and the row is read back by its id.
\<close>

definition new_embedding :: "nat \<Rightarrow> int \<Rightarrow> insertVectorEmbedding \<Rightarrow> vectorEmbedding" where
  "new_embedding ident t e =
     \<lparr>emb_id = ident, emb_documentId = ins_documentId e, emb_agentId = ins_agentId e,
      emb_chunkIndex = ins_chunkIndex e, emb_content = ins_content e,
      emb_embedding = Some (ins_embedding e),
      emb_metadata_chunkSize = Some (ins_metadata_chunkSize e), emb_createdAt = t\<rparr>"

definition createVectorEmbedding :: "insertVectorEmbedding \<Rightarrow> vectorEmbedding option io" where
  "createVectorEmbedding embedding w =
     (if \<not> connected w then io_throw DatabaseNotAvailable w
      else io_bind
             (query (\<lambda>w. (nextEmbeddingId w,
                w\<lparr>vectorEmbeddings :=
                     vectorEmbeddings w
                       @ [new_embedding (nextEmbeddingId w) (clock w (issued w)) embedding],
                  nextEmbeddingId := Suc (nextEmbeddingId w)\<rparr>)))
             (\<lambda>insertedId. io_bind
                (query (\<lambda>w. (filter (\<lambda>e. emb_id e = insertedId) (vectorEmbeddings w), w)))
                (\<lambda>inserted. io_return (case inserted of
                   e # _ \<Rightarrow> Some e | [] \<Rightarrow> None))) w)"

text \<open>
  \<^verbatim>\<open>getVectorEmbeddingsByAgentId(agentId)\<close>: the empty array without a database;
  otherwise the agent's rows, \<^verbatim>\<open>ORDER BY createdAt DESC\<close>. Rows of equal \<^verbatim>\<open>createdAt\<close>
  are kept in table order (SQL leaves their order open; no theorem below depends on it).
\<close>

definition getVectorEmbeddingsByAgentId :: "nat \<Rightarrow> vectorEmbedding list io" where
  "getVectorEmbeddingsByAgentId agentId w =
     (if \<not> connected w then io_return [] w
      else query (\<lambda>w. (sort_key (\<lambda>e. - emb_createdAt e)
                          (filter (\<lambda>e. emb_agentId e = agentId) (vectorEmbeddings w)), w)) w)"

text \<open>
  \<^verbatim>\<open>deleteVectorEmbeddingsByDocumentId(documentId)\<close>: one \<^verbatim>\<open>DELETE\<close> on
  \<^verbatim>\<open>vectorEmbeddings\<close>; nothing without a database.
\<close>

definition deleteVectorEmbeddingsByDocumentId :: "nat \<Rightarrow> unit io" where
  "deleteVectorEmbeddingsByDocumentId documentId w =
     (if \<not> connected w then io_return () w
      else query (\<lambda>w. ((), w\<lparr>vectorEmbeddings :=
             filter (\<lambda>e. emb_documentId e \<noteq> documentId) (vectorEmbeddings w)\<rparr>)) w)"

subsection \<open>The retriever: \<^verbatim>\<open>retrieveRelevantContext\<close>\<close>

text \<open>
  The values of \<^verbatim>\<open>parseFloat(config.similarityThreshold || "0.7")\<close> and of
  \<^verbatim>\<open>config.topK || 3\<close>: \<^verbatim>\<open>||\<close> takes its right operand when the left one is \<^verbatim>\<open>null\<close>,
  and also when it is the number \<open>0\<close>; a decimal string such as \<^verbatim>\<open>"0.00"\<close> is not empty
  and is kept.
\<close>

definition threshold_of :: "ragConfiguration \<Rightarrow> real" where
  "threshold_of config =
     (case cfg_similarityThreshold config of None \<Rightarrow> 7 / 10 | Some t \<Rightarrow> t)"

definition int_or :: "int option \<Rightarrow> int \<Rightarrow> int" where
  "int_or v d = (case v of None \<Rightarrow> d | Some n \<Rightarrow> if n = 0 then d else n)"

text \<open>
  The score of one stored row against the query's embedding: \<open>0\<close> for a row without an
  embedding array.
\<close>

definition score_of :: "real list \<Rightarrow> vectorEmbedding \<Rightarrow> jsnumber" where
  "score_of queryEmbedding embedding =
     (case emb_embedding embedding of
        None \<Rightarrow> Num 0
      | Some v \<Rightarrow> cosineSimilarity queryEmbedding v)"

text \<open>
  The array \<^verbatim>\<open>scoredEmbeddings\<close>: \<^verbatim>\<open>map\<close> to pairs of row and score, \<^verbatim>\<open>filter\<close> by the
  threshold, \<^verbatim>\<open>sort\<close> with the comparator \<^verbatim>\<open>b.score - a.score\<close>, and
  \<^verbatim>\<open>slice(0, config.topK || 3)\<close>.
\<close>

definition scoredEmbeddings ::
  "ragConfiguration \<Rightarrow> real list \<Rightarrow> vectorEmbedding list \<Rightarrow> (vectorEmbedding \<times> jsnumber) list" where
  "scoredEmbeddings config queryEmbedding embeddings =
     js_slice
       (js_sort (\<lambda>a b. js_sub (snd b) (snd a))
          (filter (\<lambda>item. js_ge (snd item) (threshold_of config))
             (map (\<lambda>embedding. (embedding, score_of queryEmbedding embedding)) embeddings)))
       0 (int_or (cfg_topK config) 3)"

text \<open>The body of the \<^verbatim>\<open>try\<close> block; \<open>None\<close> is \<^verbatim>\<open>null\<close>.\<close>

definition retrieve_try :: "(jsstring \<Rightarrow> jsstring) \<Rightarrow> nat \<Rightarrow> jsstring \<Rightarrow> jsstring option io" where
  "retrieve_try toLowerCase agentId query_text =
     io_bind (getOrCreateRagConfig agentId)
       (\<lambda>config. case config of
          None \<Rightarrow> io_throw TypeError
        | Some config \<Rightarrow>
            if cfg_enabled config \<noteq> 1 then io_return None
            else io_bind (getVectorEmbeddingsByAgentId agentId)
              (\<lambda>embeddings.
                 if length embeddings = 0 then io_return None
                 else
                   let queryEmbedding = createSimpleEmbedding toLowerCase query_text;
                       scored = scoredEmbeddings config queryEmbedding embeddings
                   in if length scored = 0 then io_return None
                      else io_return
                             (Some (js_join [10, 10] (map (\<lambda>item. emb_content (fst item)) scored)))))"

text \<open>
  \<^verbatim>\<open>retrieveRelevantContext(agentId, query)\<close>: the \<^verbatim>\<open>catch\<close> clause logs the error and
  returns \<^verbatim>\<open>null\<close>.
\<close>

definition retrieveRelevantContext ::
  "(jsstring \<Rightarrow> jsstring) \<Rightarrow> nat \<Rightarrow> jsstring \<Rightarrow> jsstring option io" where
  "retrieveRelevantContext toLowerCase agentId query_text =
     io_catch (retrieve_try toLowerCase agentId query_text) (\<lambda>error. io_return None)"

subsection \<open>The indexer: \<^verbatim>\<open>processDocumentForRAG\<close>\<close>

text \<open>
  The \<^verbatim>\<open>for\<close> loop over the chunks, from index \<open>i\<close>: each chunk is embedded and written
  with \<^verbatim>\<open>createVectorEmbedding\<close>; a rejected write leaves the loop.
\<close>

fun store_chunks ::
  "(jsstring \<Rightarrow> jsstring) \<Rightarrow> nat \<Rightarrow> nat \<Rightarrow> nat \<Rightarrow> jsstring list \<Rightarrow> unit io" where
  "store_chunks toLowerCase documentId agentId i [] = io_return ()"
| "store_chunks toLowerCase documentId agentId i (chunk # rest) =
     io_bind
       (createVectorEmbedding
          \<lparr>ins_documentId = documentId, ins_agentId = agentId, ins_chunkIndex = i,
           ins_content = chunk, ins_embedding = createSimpleEmbedding toLowerCase chunk,
           ins_metadata_chunkSize = length chunk\<rparr>)
       (\<lambda>_. store_chunks toLowerCase documentId agentId (Suc i) rest)"

text \<open>
  The body of the \<^verbatim>\<open>try\<close> block. It is \<open>None\<close> when the chunker does not return;
  otherwise it is the outcome of the block.
\<close>

definition process_try ::
  "(jsstring \<Rightarrow> jsstring) \<Rightarrow> nat \<Rightarrow> nat \<Rightarrow> jsstring \<Rightarrow> world \<Rightarrow> ((error + unit) \<times> world) option" where
  "process_try toLowerCase documentId agentId content w =
     (case getOrCreateRagConfig agentId w of
        (Inl e, w1) \<Rightarrow> Some (Inl e, w1)
      | (Inr config, w1) \<Rightarrow>
          (case updateTrainingDocument documentId
                  \<lparr>patch_status = Some processing, patch_chunkCount = None\<rparr> w1 of
             (Inl e, w2) \<Rightarrow> Some (Inl e, w2)
           | (Inr _, w2) \<Rightarrow>
               (case config of
                  None \<Rightarrow> Some (Inl TypeError, w2)
                | Some config \<Rightarrow>
                    (case chunkText content (int_or (cfg_chunkSize config) 512)
                            (int_or (cfg_chunkOverlap config) 50) of
                       None \<Rightarrow> None
                     | Some chunks \<Rightarrow>
                         Some (io_bind (store_chunks toLowerCase documentId agentId 0 chunks)
                                 (\<lambda>_. io_bind
                                    (updateTrainingDocument documentId
                                       \<lparr>patch_status = Some completed,
                                        patch_chunkCount = Some (length chunks)\<rparr>)
                                    (\<lambda>_. io_return ())) w2)))))"

text \<open>
  The \<^verbatim>\<open>catch\<close> clause: it writes the status \<^verbatim>\<open>failed\<close> and throws the caught error
  again; when the write itself is rejected, that rejection is what leaves the function.
\<close>

definition process_catch :: "nat \<Rightarrow> error \<Rightarrow> unit io" where
  "process_catch documentId e =
     io_bind (updateTrainingDocument documentId
                \<lparr>patch_status = Some failed, patch_chunkCount = None\<rparr>)
       (\<lambda>_. io_throw e)"

definition processDocumentForRAG ::
  "(jsstring \<Rightarrow> jsstring) \<Rightarrow> nat \<Rightarrow> nat \<Rightarrow> jsstring \<Rightarrow> world \<Rightarrow> ((error + unit) \<times> world) option" where
  "processDocumentForRAG toLowerCase documentId agentId content w =
     (case process_try toLowerCase documentId agentId content w of
        None \<Rightarrow> None
      | Some (Inl e, w') \<Rightarrow> Some (process_catch documentId e w')
      | Some (Inr u, w') \<Rightarrow> Some (Inr u, w'))"

subsection \<open>Example data\<close>

text \<open>
  Concrete rows and worlds for the examples: a chunk row as the indexer writes it for
  agent 1, a document 1 of agent 1 and user 1, and a connected world with the given
  faults, query counter and tables, whose clock shows the number of the query.
\<close>

definition example_chunk :: "nat \<Rightarrow> nat \<Rightarrow> jsstring \<Rightarrow> int \<Rightarrow> vectorEmbedding" where
  "example_chunk ident documentId content t =
     \<lparr>emb_id = ident, emb_documentId = documentId, emb_agentId = 1, emb_chunkIndex = 0,
      emb_content = content,
      emb_embedding = Some (createSimpleEmbedding ascii_toLowerCase content),
      emb_metadata_chunkSize = Some (length content), emb_createdAt = t\<rparr>"

definition example_document :: "doc_status \<Rightarrow> nat option \<Rightarrow> trainingDocument" where
  "example_document s n =
     \<lparr>doc_id = 1, doc_agentId = 1, doc_userId = 1, doc_content = [97],
      doc_status = s, doc_chunkCount = n\<rparr>"

definition example_world ::
  "nat list \<Rightarrow> nat \<Rightarrow> trainingDocument list \<Rightarrow> ragConfiguration list
     \<Rightarrow> vectorEmbedding list \<Rightarrow> world" where
  "example_world fs n docs configs rows =
     \<lparr>connected = True, faults = fs, issued = n, clock = int,
      trainingDocuments = docs, ragConfigurations = configs, vectorEmbeddings = rows,
      nextConfigId = Suc (length configs), nextEmbeddingId = Suc (length rows)\<rparr>"

section \<open>The chunker\<close>

subsection \<open>One iteration of the loop\<close>

lemma chunk_loop_exit:
  "\<not> start < int (length text) \<Longrightarrow>
   chunk_loop text chunkSize overlap start chunks = Some chunks"
  by (subst chunk_loop.simps) simp

lemma chunk_loop_unfold:
  "start < int (length text) \<Longrightarrow>
   chunk_loop text chunkSize overlap start chunks =
     (if min (start + chunkSize) (int (length text)) - overlap \<le> start
          \<or> min (start + chunkSize) (int (length text)) \<ge> int (length text)
      then Some (chunks @ [js_slice text start (min (start + chunkSize) (int (length text)))])
      else chunk_loop text chunkSize overlap
             (min (start + chunkSize) (int (length text)) - overlap)
             (chunks @ [js_slice text start (min (start + chunkSize) (int (length text)))]))"
  by (subst chunk_loop.simps, simp only: Let_def if_P)

lemma chunk_loop_stop:
  assumes "start < int (length text)" "e = min (start + chunkSize) (int (length text))"
    "e - overlap \<le> start \<or> e \<ge> int (length text)"
  shows "chunk_loop text chunkSize overlap start chunks = Some (chunks @ [js_slice text start e])"
proof -
  have "chunk_loop text chunkSize overlap start chunks =
     (if e - overlap \<le> start \<or> e \<ge> int (length text)
      then Some (chunks @ [js_slice text start e])
      else chunk_loop text chunkSize overlap (e - overlap) (chunks @ [js_slice text start e]))"
    unfolding assms(2) by (rule chunk_loop_unfold[OF assms(1)])
  then show ?thesis using assms(3) by (simp only: if_P)
qed

lemma chunk_loop_go:
  assumes "start < int (length text)" "e = min (start + chunkSize) (int (length text))"
    "\<not> (e - overlap \<le> start \<or> e \<ge> int (length text))"
  shows "chunk_loop text chunkSize overlap start chunks =
     chunk_loop text chunkSize overlap (e - overlap) (chunks @ [js_slice text start e])"
proof -
  have "chunk_loop text chunkSize overlap start chunks =
     (if e - overlap \<le> start \<or> e \<ge> int (length text)
      then Some (chunks @ [js_slice text start e])
      else chunk_loop text chunkSize overlap (e - overlap) (chunks @ [js_slice text start e]))"
    unfolding assms(2) by (rule chunk_loop_unfold[OF assms(1)])
  then show ?thesis using assms(3) by (simp only: if_False)
qed

lemma js_slice_window:
  "s < length text \<Longrightarrow>
   js_slice text (int s) (min (int s + int cs) (int (length text))) = take cs (drop s text)"
  by (auto simp: js_slice_def Let_def min_def)

subsection \<open>The loop returns\<close>

text \<open>
  Whatever the chunk size and the overlap, \<open>start\<close> grows at every iteration that does
  not leave the loop, so the distance to the end of the text decreases; the number of
  chunks added is at most that distance.
\<close>

lemma chunk_loop_returns:
  "\<exists>r. chunk_loop text chunkSize overlap start chunks = Some r \<and>
       length r \<le> length chunks + nat (int (length text) - start)"
proof (induction "nat (int (length text) - start)" arbitrary: start chunks rule: less_induct)
  case less
  show ?case
  proof (cases "start < int (length text)")
    case False
    then show ?thesis by (simp add: chunk_loop_exit)
  next
    case True
    define e where "e = min (start + chunkSize) (int (length text))"
    show ?thesis
    proof (cases "e - overlap \<le> start \<or> e \<ge> int (length text)")
      case stop: True
      show ?thesis using True chunk_loop_stop[OF True e_def stop, of chunks] by simp
    next
      case go: False
      then have "nat (int (length text) - (e - overlap)) < nat (int (length text) - start)"
        using True by linarith
      from less[OF this, of "chunks @ [js_slice text start e]"]
      obtain r where r:
        "chunk_loop text chunkSize overlap (e - overlap) (chunks @ [js_slice text start e]) = Some r"
        "length r \<le> length (chunks @ [js_slice text start e])
                     + nat (int (length text) - (e - overlap))"
        by blast
      have "chunk_loop text chunkSize overlap start chunks = Some r"
        using chunk_loop_go[OF True e_def go, of chunks] r(1) by simp
      moreover have "length r \<le> length chunks + nat (int (length text) - start)"
        using r(2) go True by simp linarith
      ultimately show ?thesis by blast
    qed
  qed
qed

lemma chunk_loop_single:
  assumes "0 \<le> start" "start < int (length text)" "0 < chunkSize" "chunkSize \<le> overlap"
  shows "chunk_loop text chunkSize overlap start chunks
           = Some (chunks @ [take (nat chunkSize) (drop (nat start) text)])"
proof -
  define e where "e = min (start + chunkSize) (int (length text))"
  have "e - overlap \<le> start \<or> e \<ge> int (length text)" using assms by (auto simp: e_def)
  from chunk_loop_stop[OF assms(2) e_def this, of chunks]
  show ?thesis using assms by (auto simp: e_def js_slice_def Let_def min_def)
qed

subsection \<open>The chunks cover the text\<close>

text \<open>
  With \<open>overlap < chunkSize\<close>, the chunks emitted from position \<open>s\<close> on start with the
  window at \<open>s\<close>, and, once the first \<open>overlap\<close> units of every later chunk are removed,
  concatenate to the text from \<open>s\<close> on.
\<close>

lemma chunk_loop_cover:
  fixes s cs ov :: nat
  assumes "s < length text" "ov < cs"
  shows "\<exists>rest. chunk_loop text (int cs) (int ov) (int s) acc = Some (acc @ rest) \<and> rest \<noteq> [] \<and>
           hd rest = take cs (drop s text) \<and>
           hd rest @ concat (map (drop ov) (tl rest)) = drop s text \<and>
           (\<exists>t<length text. last rest = drop t text)"
  using assms
proof (induction "length text - s" arbitrary: s acc rule: less_induct)
  case less
  let ?chunk = "take cs (drop s text)"
  define e where "e = min (int s + int cs) (int (length text))"
  have lt: "int s < int (length text)" using less.prems by simp
  have sl: "js_slice text (int s) e = ?chunk"
    unfolding e_def using less.prems(1) by (rule js_slice_window)
  show ?case
  proof (cases "s + cs \<ge> length text")
    case True
    then have "e - int ov \<le> int s \<or> e \<ge> int (length text)" by (simp add: e_def)
    from chunk_loop_stop[OF lt e_def this, of acc]
    have "chunk_loop text (int cs) (int ov) (int s) acc = Some (acc @ [?chunk])"
      using sl by simp
    moreover have "?chunk = drop s text" using True by simp
    ultimately show ?thesis using less.prems by (intro exI[of _ "[?chunk]"]) auto
  next
    case False
    let ?s' = "s + cs - ov"
    have s': "?s' < length text" "length text - ?s' < length text - s"
      using False less.prems by auto
    from less.hyps[OF s'(2) s'(1) less.prems(2), of "acc @ [?chunk]"]
    obtain rest where rest:
      "chunk_loop text (int cs) (int ov) (int ?s') (acc @ [?chunk]) = Some ((acc @ [?chunk]) @ rest)"
      "rest \<noteq> []" "hd rest = take cs (drop ?s' text)"
      "hd rest @ concat (map (drop ov) (tl rest)) = drop ?s' text"
      "\<exists>t<length text. last rest = drop t text"
      by blast
    have nx: "e - int ov = int ?s'"
      using False less.prems by (auto simp: e_def min_def)
    have go: "\<not> (e - int ov \<le> int s \<or> e \<ge> int (length text))"
      using False less.prems by (auto simp: e_def min_def)
    have "chunk_loop text (int cs) (int ov) (int s) acc = Some (acc @ (?chunk # rest))"
      using chunk_loop_go[OF lt e_def go, of acc] rest(1) sl nx by simp
    moreover have "?chunk @ concat (map (drop ov) rest) = drop s text"
    proof -
      have len: "ov \<le> length (hd rest)" using rest(3) s'(1) less.prems(2) False by simp
      have "concat (map (drop ov) rest) = drop ov (hd rest) @ concat (map (drop ov) (tl rest))"
        using rest(2) by (cases rest) auto
      also have "\<dots> = drop ov (hd rest @ concat (map (drop ov) (tl rest)))"
        using len by simp
      also have "\<dots> = drop ov (drop ?s' text)" using rest(4) by simp
      also have "\<dots> = drop cs (drop s text)" using less.prems(2) by (simp add: add.commute)
      finally have "concat (map (drop ov) rest) = drop cs (drop s text)" .
      then show ?thesis by (simp only: append_take_drop_id)
    qed
    moreover have "last (?chunk # rest) = last rest" using rest(2) by simp
    ultimately show ?thesis using rest(5)
      by (intro exI[of _ "?chunk # rest"]) auto
  qed
qed

text \<open>
  Claim C7. \<^verbatim>\<open>chunkText("")\<close> is the empty sequence; a non-empty text no longer than
  \<open>chunkSize\<close> gives the single chunk that is the whole text; and for a non-empty text and
  \<open>chunkSize > overlap \<ge> 0\<close> the chunker returns a non-empty sequence whose first chunk,
  followed by every later chunk without its first \<open>overlap\<close> units, is the text, and
  whose last chunk is the text from some position to its end.
\<close>

theorem chunkText_correct:
  "chunkText ([] :: 'a list) chunkSize overlap = Some []
   \<and> (text \<noteq> [] \<and> int (length text) \<le> chunkSize
        \<longrightarrow> chunkText text chunkSize overlap = Some [text])
   \<and> (text \<noteq> [] \<and> 0 \<le> overlap \<and> overlap < chunkSize
        \<longrightarrow> (\<exists>chunks. chunkText text chunkSize overlap = Some chunks \<and> chunks \<noteq> [] \<and>
               hd chunks @ concat (map (drop (nat overlap)) (tl chunks)) = text \<and>
               (\<exists>start<length text. last chunks = drop start text)))"
proof (intro conjI impI)
  show "chunkText ([] :: 'a list) chunkSize overlap = Some []"
    by (simp add: chunkText_def chunk_loop_exit)
next
  assume a: "text \<noteq> [] \<and> int (length text) \<le> chunkSize"
  define e where "e = min (0 + chunkSize) (int (length text))"
  have pos: "(0::int) < int (length text)" using a by simp
  have e: "e = int (length text)" using a by (simp add: e_def)
  then have "e - overlap \<le> 0 \<or> e \<ge> int (length text)" by simp
  from chunk_loop_stop[OF pos e_def this, of "[]"]
  show "chunkText text chunkSize overlap = Some [text]"
    by (simp add: chunkText_def e js_slice_def)
next
  assume a: "text \<noteq> [] \<and> 0 \<le> overlap \<and> overlap < chunkSize"
  then have "0 < length text" "nat overlap < nat chunkSize" by auto
  from chunk_loop_cover[OF this, of "[]"]
  show "\<exists>chunks. chunkText text chunkSize overlap = Some chunks \<and> chunks \<noteq> [] \<and>
               hd chunks @ concat (map (drop (nat overlap)) (tl chunks)) = text \<and>
               (\<exists>start<length text. last chunks = drop start text)"
    using a by (auto simp: chunkText_def)
qed

theorem chunkText_correct_witness:
  "(''abcdefghij'' \<noteq> [] \<and> (0::int) \<le> 1 \<and> (1::int) < 4)
   \<and> chunkText ''abcdefghij'' 4 1 = Some [''abcd'', ''defg'', ''ghij'']
   \<and> (\<exists>chunks. chunkText ''abcdefghij'' 4 1 = Some chunks \<and> chunks \<noteq> [] \<and>
         hd chunks @ concat (map (drop (nat 1)) (tl chunks)) = ''abcdefghij'' \<and>
         (\<exists>start<length ''abcdefghij''. last chunks = drop start ''abcdefghij''))
   \<and> (''abc'' \<noteq> [] \<and> int (length ''abc'') \<le> 5)
   \<and> chunkText ''abc'' 5 1 = Some [''abc'']"
proof -
  have h1: "''abcdefghij'' \<noteq> [] \<and> (0::int) \<le> 1 \<and> (1::int) < 4" by simp
  have h2: "''abc'' \<noteq> [] \<and> int (length ''abc'') \<le> 5" by simp
  have v: "chunkText ''abcdefghij'' 4 1 = Some [''abcd'', ''defg'', ''ghij'']" by code_simp
  from chunkText_correct[of 4 1 "''abcdefghij''"] h1
  have c1: "\<exists>chunks. chunkText ''abcdefghij'' 4 1 = Some chunks \<and> chunks \<noteq> [] \<and>
         hd chunks @ concat (map (drop (nat 1)) (tl chunks)) = ''abcdefghij'' \<and>
         (\<exists>start<length ''abcdefghij''. last chunks = drop start ''abcdefghij'')"
    by blast
  from chunkText_correct[of 5 1 "''abc''"] h2
  have c2: "chunkText ''abc'' 5 1 = Some [''abc'']" by blast
  from h1 v c1 h2 c2 show ?thesis by blast
qed

text \<open>
  Claim C8. For every text, every \<open>chunkSize > 0\<close> and every overlap, \<^verbatim>\<open>chunkText\<close>
  returns, with at most one chunk per unit of the text; and when
  \<open>overlap \<ge> chunkSize\<close> the next start does not pass the current one, so the loop stops
  after the first chunk.
\<close>

theorem chunkText_terminates:
  "0 < chunkSize \<Longrightarrow>
   (\<exists>chunks. chunkText text chunkSize overlap = Some chunks \<and> length chunks \<le> length text)
   \<and> (chunkSize \<le> overlap \<and> text \<noteq> []
        \<longrightarrow> chunkText text chunkSize overlap = Some [take (nat chunkSize) text])"
proof (intro conjI impI)
  show "\<exists>chunks. chunkText text chunkSize overlap = Some chunks \<and> length chunks \<le> length text"
    using chunk_loop_returns[of "text" chunkSize overlap 0 "[]"] by (simp add: chunkText_def)
next
  assume p: "0 < chunkSize" and a: "chunkSize \<le> overlap \<and> text \<noteq> []"
  then have "(0::int) \<le> 0" "(0::int) < int (length text)" by auto
  from chunk_loop_single[OF this p, of overlap "[]"] a
  show "chunkText text chunkSize overlap = Some [take (nat chunkSize) text]"
    by (simp add: chunkText_def)
qed

theorem chunkText_terminates_witness:
  "(0::int) < 4 \<and> ((4::int) \<le> 4 \<and> ''abcdefghij'' \<noteq> [])
   \<and> (\<exists>chunks. chunkText ''abcdefghij'' 4 4 = Some chunks
         \<and> length chunks \<le> length ''abcdefghij'')
   \<and> chunkText ''abcdefghij'' 4 4 = Some [''abcd'']"
proof -
  have h: "(0::int) < 4" by simp
  have g: "(4::int) \<le> 4 \<and> ''abcdefghij'' \<noteq> []" by simp
  from chunkText_terminates[OF h, of "''abcdefghij''" 4] g
  have "(\<exists>chunks. chunkText ''abcdefghij'' 4 4 = Some chunks
           \<and> length chunks \<le> length ''abcdefghij'')
        \<and> chunkText ''abcdefghij'' 4 4 = Some [take (nat 4) ''abcdefghij'']"
    by blast
  then show ?thesis using h g by simp
qed

section \<open>The similarity and the embedder\<close>

subsection \<open>The sums of the loop of \<^verbatim>\<open>cosineSimilarity\<close>\<close>

lemma cosine_sums_foldl:
  fixes d na nb :: real
  assumes "length a = length b"
  shows "foldl (\<lambda>(dotProduct, normA, normB) (x, y).
            (dotProduct + x * y, normA + x * x, normB + y * y)) (d, na, nb) (zip a b)
     = (d + sum_list (map2 (*) a b), na + sum_list (map (\<lambda>x. x * x) a),
        nb + sum_list (map (\<lambda>y. y * y) b))"
  using assms
  by (induction a b arbitrary: d na nb rule: list_induct2) (auto simp: algebra_simps)

lemma cosine_sums_eq:
  "length a = length b \<Longrightarrow>
   cosine_sums a b = (sum_list (map2 (*) a b), sum_list (map (\<lambda>x. x * x) a),
                      sum_list (map (\<lambda>y. y * y) b))"
  by (simp add: cosine_sums_def cosine_sums_foldl)

lemma sum_squares_zero: "\<forall>x\<in>set a. x = (0::real) \<Longrightarrow> sum_list (map (\<lambda>x. x * x) a) = 0"
  by (induction a) auto

lemma dot_left_zero:
  "length a = length b \<Longrightarrow> \<forall>x\<in>set a. x = (0::real) \<Longrightarrow> sum_list (map2 (*) a b) = 0"
  by (induction a b rule: list_induct2) auto

lemma dot_right_zero:
  "length a = length b \<Longrightarrow> \<forall>y\<in>set b. y = (0::real) \<Longrightarrow> sum_list (map2 (*) a b) = 0"
  by (induction a b rule: list_induct2) auto

lemma cosineSimilarity_zero_is_NaN:
  assumes "length a = length b" "(\<forall>x\<in>set a. x = 0) \<or> (\<forall>y\<in>set b. y = 0)"
  shows "cosineSimilarity a b = NaN"
  using assms
  by (auto simp: cosineSimilarity_def cosine_sums_eq js_div_def sum_squares_zero
        dot_left_zero dot_right_zero)

lemma sum_squares_nonneg: "0 \<le> sum_list (map (\<lambda>x. x * x) (v::real list))"
  by (induction v) auto

lemma sum_squares_pos:
  "\<exists>x\<in>set v. x \<noteq> (0::real) \<Longrightarrow> 0 < sum_list (map (\<lambda>x. x * x) v)"
proof (induction v)
  case Nil then show ?case by simp
next
  case (Cons x v)
  show ?case
  proof (cases "x = 0")
    case True
    then show ?thesis using Cons by auto
  next
    case False
    then have "0 < x * x" by (auto simp: zero_less_mult_iff)
    then show ?thesis using sum_squares_nonneg[of v] by simp
  qed
qed

lemma map2_self: "map2 (*) v v = map (\<lambda>x. x * x) (v::real list)"
  by (induction v) auto

lemma cosineSimilarity_self:
  assumes "\<exists>x\<in>set v. x \<noteq> 0"
  shows "cosineSimilarity v v = Num 1"
proof -
  have "0 < sum_list (map (\<lambda>x. x * x) v)" using assms by (rule sum_squares_pos)
  then show ?thesis
    by (simp add: cosineSimilarity_def cosine_sums_eq js_div_def map2_self)
qed

text \<open>
  Claim C4 says that the similarity is \<open>0\<close> when one of the two vectors is all zero.
  The code divides by the product of the norms without a test, so the quotient is
  \<^verbatim>\<open>0 / 0\<close>: the result is \<^verbatim>\<open>NaN\<close>, for instance on \<^verbatim>\<open>[0, 0]\<close> and \<^verbatim>\<open>[1, 0]\<close>, and on
  every pair of equal length with an all-zero side (lemma \<open>cosineSimilarity_zero_is_NaN\<close>).
\<close>

theorem cosineSimilarity_zero_vector_NaN:
  "cosineSimilarity [0, 0] [1, 0] = NaN \<and> cosineSimilarity [1, 0] [0, 0] = NaN
   \<and> cosineSimilarity [0, 0] [1, 0] \<noteq> Num 0"
  by (simp add: cosineSimilarity_def cosine_sums_def js_div_def)

subsection \<open>The embedder reads the lowercased text only\<close>

text \<open>
  Claim C10. Two texts with the same lowercased form have the same embedding; and
  where lowercasing a lowercased text changes nothing (as \<^verbatim>\<open>toLowerCase\<close> does), a
  text and its lowercased form have the same embedding, hence the same score against
  every stored row.
\<close>

theorem createSimpleEmbedding_case_insensitive:
  "(toLowerCase x = toLowerCase y
      \<longrightarrow> createSimpleEmbedding toLowerCase x = createSimpleEmbedding toLowerCase y)
   \<and> (toLowerCase (toLowerCase x) = toLowerCase x
      \<longrightarrow> createSimpleEmbedding toLowerCase x = createSimpleEmbedding toLowerCase (toLowerCase x)
        \<and> score_of (createSimpleEmbedding toLowerCase x) e
            = score_of (createSimpleEmbedding toLowerCase (toLowerCase x)) e)"
  by (simp add: createSimpleEmbedding_def)

theorem createSimpleEmbedding_case_insensitive_witness:
  "ascii_toLowerCase [72, 105] = ascii_toLowerCase [104, 73]
   \<and> createSimpleEmbedding ascii_toLowerCase [72, 105]
        = createSimpleEmbedding ascii_toLowerCase [104, 73]
   \<and> ascii_toLowerCase (ascii_toLowerCase [72, 105]) = ascii_toLowerCase [72, 105]
   \<and> createSimpleEmbedding ascii_toLowerCase [72, 105]
        = createSimpleEmbedding ascii_toLowerCase (ascii_toLowerCase [72, 105])"
proof -
  have h1: "ascii_toLowerCase [72, 105] = ascii_toLowerCase [104, 73]"
    by (simp add: ascii_toLowerCase_def)
  have h2: "ascii_toLowerCase (ascii_toLowerCase [72, 105]) = ascii_toLowerCase [72, 105]"
    by (simp add: ascii_toLowerCase_def)
  from createSimpleEmbedding_case_insensitive[of ascii_toLowerCase "[72, 105]" "[104, 73]"] h1 h2
  show ?thesis by blast
qed

subsection \<open>The embedding of a one-letter text\<close>

lemma char_histogram_a: "char_histogram [97] = (replicate 128 0)[97 := 1]"
  by (simp add: char_histogram_def)

lemma sumsq_replicate0: "foldl (\<lambda>sum val. sum + val * val) (s::real) (replicate n 0) = s"
  by (induction n) auto

lemma createSimpleEmbedding_a:
  "createSimpleEmbedding ascii_toLowerCase [97] = replicate 97 0 @ [1] @ replicate 30 0"
proof -
  have "(replicate 128 (0::real))[97 := 1] = replicate 97 0 @ [1] @ replicate 30 0"
    by (simp add: eval_nat_numeral)
  then show ?thesis
    by (simp add: createSimpleEmbedding_def ascii_toLowerCase_def char_histogram_a Let_def
          sumsq_replicate0)
qed

lemma createSimpleEmbedding_A:
  "createSimpleEmbedding ascii_toLowerCase [65] = createSimpleEmbedding ascii_toLowerCase [97]"
  by (simp add: createSimpleEmbedding_def ascii_toLowerCase_def)

lemma score_a_a:
  "cosineSimilarity (createSimpleEmbedding ascii_toLowerCase [97])
     (createSimpleEmbedding ascii_toLowerCase [97]) = Num 1"
  by (rule cosineSimilarity_self) (simp add: createSimpleEmbedding_a)

section \<open>The storage functions and the errors\<close>

lemmas io_defs = io_bind_def io_return_def io_throw_def io_catch_def query_def Let_def

lemmas example_defs = example_world_def example_chunk_def example_document_def default_config_def

subsection \<open>\<^verbatim>\<open>retrieveRelevantContext\<close> catches every error\<close>

text \<open>
  Claim C1 says that a storage call that throws inside \<^verbatim>\<open>retrieveRelevantContext\<close> makes
  the function throw. In the world below the second query, the scan of the agent's
  chunks, is rejected by the database; the function returns \<^verbatim>\<open>null\<close>.
\<close>

theorem retrieveRelevantContext_swallows_error:
  "fst (getVectorEmbeddingsByAgentId 1
          (snd (getOrCreateRagConfig 1 (example_world [1] 0 [] [default_config 1 1] []))))
     = Inl (QueryFailed 1)
   \<and> fst (retrieveRelevantContext ascii_toLowerCase 1 [104, 105]
            (example_world [1] 0 [] [default_config 1 1] [])) = Inr None"
  by (simp add: retrieveRelevantContext_def retrieve_try_def getOrCreateRagConfig_def
        getVectorEmbeddingsByAgentId_def io_defs example_defs)

text \<open>
  Claim C1, amended. \<^verbatim>\<open>retrieveRelevantContext\<close> never throws: it always returns a
  value, and whenever anything inside its \<^verbatim>\<open>try\<close> block throws, a storage failure
  included, the value returned is \<^verbatim>\<open>null\<close>.
\<close>

theorem retrieveRelevantContext_never_throws:
  "(\<exists>r. fst (retrieveRelevantContext toLowerCase agentId query_text w) = Inr r)
   \<and> (\<forall>e. fst (retrieve_try toLowerCase agentId query_text w) = Inl e
         \<longrightarrow> fst (retrieveRelevantContext toLowerCase agentId query_text w) = Inr None)"
  by (cases "retrieve_try toLowerCase agentId query_text w")
     (auto simp: retrieveRelevantContext_def io_catch_def io_return_def split: sum.splits)

theorem retrieveRelevantContext_never_throws_witness:
  "fst (retrieve_try ascii_toLowerCase 1 [104, 105]
          (example_world [0] 0 [] [default_config 1 1] [])) = Inl (QueryFailed 0)
   \<and> fst (retrieveRelevantContext ascii_toLowerCase 1 [104, 105]
            (example_world [0] 0 [] [default_config 1 1] [])) = Inr None"
proof -
  have h: "fst (retrieve_try ascii_toLowerCase 1 [104, 105]
                  (example_world [0] 0 [] [default_config 1 1] [])) = Inl (QueryFailed 0)"
    by (simp add: retrieve_try_def getOrCreateRagConfig_def io_defs example_defs)
  from retrieveRelevantContext_never_throws[of ascii_toLowerCase 1 "[104, 105]"
         "example_world [0] 0 [] [default_config 1 1] []"] h
  show ?thesis by blast
qed

subsection \<open>Deleting a document and deleting its chunks\<close>

text \<open>
  Claim C2 says that after \<^verbatim>\<open>deleteTrainingDocument\<close> no chunk of the document is
  returned by a scan of the agent's chunks. The function deletes from
  \<^verbatim>\<open>trainingDocuments\<close> only: in the world below the document row is gone and the scan
  still returns the document's chunk.
\<close>

theorem deleteTrainingDocument_leaves_chunks:
  "emb_documentId (example_chunk 1 1 [97] 0) = 1
   \<and> fst (deleteTrainingDocument 1 1
        (example_world [] 0 [example_document completed (Some 1)] []
           [example_chunk 1 1 [97] 0]))
      = Inr ()
   \<and> trainingDocuments (snd (deleteTrainingDocument 1 1
        (example_world [] 0 [example_document completed (Some 1)] []
           [example_chunk 1 1 [97] 0])))
      = []
   \<and> fst (getVectorEmbeddingsByAgentId 1 (snd (deleteTrainingDocument 1 1
        (example_world [] 0 [example_document completed (Some 1)] []
           [example_chunk 1 1 [97] 0]))))
      = Inr [example_chunk 1 1 [97] 0]"
  by (simp add: deleteTrainingDocument_def getVectorEmbeddingsByAgentId_def io_defs example_defs)

lemma deleteTrainingDocument_embeddings:
  "vectorEmbeddings (snd (deleteTrainingDocument ident userId w)) = vectorEmbeddings w"
  by (simp add: deleteTrainingDocument_def io_defs)

lemma deleteTrainingDocument_connected:
  "connected (snd (deleteTrainingDocument ident userId w)) = connected w"
  by (simp add: deleteTrainingDocument_def io_defs)

lemma scan_subset:
  "fst (getVectorEmbeddingsByAgentId agentId w) = Inr es \<Longrightarrow> set es \<subseteq> set (vectorEmbeddings w)"
  by (auto simp: getVectorEmbeddingsByAgentId_def io_defs split: if_splits)

lemma scan_disconnected:
  "\<not> connected w \<Longrightarrow> fst (getVectorEmbeddingsByAgentId agentId w) = Inr []"
  by (simp add: getVectorEmbeddingsByAgentId_def io_defs)

lemma deleteVectorEmbeddings_removes:
  "fst (deleteVectorEmbeddingsByDocumentId documentId w) = Inr u \<Longrightarrow> connected w \<Longrightarrow>
   \<forall>e\<in>set (vectorEmbeddings (snd (deleteVectorEmbeddingsByDocumentId documentId w))).
      emb_documentId e \<noteq> documentId"
  by (auto simp: deleteVectorEmbeddingsByDocumentId_def io_defs split: if_splits)

lemma deleteVectorEmbeddings_connected:
  "connected (snd (deleteVectorEmbeddingsByDocumentId documentId w)) = connected w"
  by (simp add: deleteVectorEmbeddingsByDocumentId_def io_defs)

text \<open>
  Claim C2, amended. \<^verbatim>\<open>deleteTrainingDocument\<close> leaves the table of chunks as it is;
  the chunks of a document are deleted by \<^verbatim>\<open>deleteVectorEmbeddingsByDocumentId\<close>, and
  once that call has returned, no scan of an agent's chunks returns a chunk of the
  document, also after \<^verbatim>\<open>deleteTrainingDocument\<close>.
\<close>

theorem delete_chunks_then_document:
  "vectorEmbeddings (snd (deleteTrainingDocument documentId userId w)) = vectorEmbeddings w
   \<and> (fst (deleteVectorEmbeddingsByDocumentId documentId w) = Inr ()
        \<longrightarrow> (\<forall>agentId es.
               fst (getVectorEmbeddingsByAgentId agentId
                      (snd (deleteTrainingDocument documentId userId
                         (snd (deleteVectorEmbeddingsByDocumentId documentId w))))) = Inr es
               \<longrightarrow> (\<forall>e\<in>set es. emb_documentId e \<noteq> documentId)))"
proof (intro conjI allI impI)
  show "vectorEmbeddings (snd (deleteTrainingDocument documentId userId w)) = vectorEmbeddings w"
    by (rule deleteTrainingDocument_embeddings)
next
  fix agentId es
  let ?w1 = "snd (deleteVectorEmbeddingsByDocumentId documentId w)"
  let ?w2 = "snd (deleteTrainingDocument documentId userId ?w1)"
  assume d: "fst (deleteVectorEmbeddingsByDocumentId documentId w) = Inr ()"
    and s: "fst (getVectorEmbeddingsByAgentId agentId ?w2) = Inr es"
  show "\<forall>e\<in>set es. emb_documentId e \<noteq> documentId"
  proof (cases "connected w")
    case True
    have "\<forall>e\<in>set (vectorEmbeddings ?w1). emb_documentId e \<noteq> documentId"
      using deleteVectorEmbeddings_removes[OF d True] .
    moreover have "set es \<subseteq> set (vectorEmbeddings ?w1)"
      using scan_subset[OF s] by (simp add: deleteTrainingDocument_embeddings)
    ultimately show ?thesis by blast
  next
    case False
    then have "\<not> connected ?w2"
      by (simp add: deleteTrainingDocument_connected deleteVectorEmbeddings_connected)
    from scan_disconnected[OF this, of agentId] s show ?thesis by simp
  qed
qed

theorem delete_chunks_then_document_witness:
  "fst (deleteVectorEmbeddingsByDocumentId 1
          (example_world [] 0 [example_document completed (Some 1)] []
             [example_chunk 1 1 [97] 0, example_chunk 2 2 [98] 5])) = Inr ()
   \<and> fst (getVectorEmbeddingsByAgentId 1
        (snd (deleteTrainingDocument 1 1
           (snd (deleteVectorEmbeddingsByDocumentId 1
              (example_world [] 0 [example_document completed (Some 1)] []
                 [example_chunk 1 1 [97] 0, example_chunk 2 2 [98] 5]))))))
      = Inr [example_chunk 2 2 [98] 5]
   \<and> emb_documentId (example_chunk 2 2 [98] 5) \<noteq> 1"
proof -
  let ?w = "example_world [] 0 [example_document completed (Some 1)] []
              [example_chunk 1 1 [97] 0, example_chunk 2 2 [98] 5]"
  have h1: "fst (deleteVectorEmbeddingsByDocumentId 1 ?w) = Inr ()"
    by (simp add: deleteVectorEmbeddingsByDocumentId_def io_defs example_defs)
  have h2: "fst (getVectorEmbeddingsByAgentId 1
        (snd (deleteTrainingDocument 1 1 (snd (deleteVectorEmbeddingsByDocumentId 1 ?w)))))
      = Inr [example_chunk 2 2 [98] 5]"
    by (simp add: deleteVectorEmbeddingsByDocumentId_def deleteTrainingDocument_def
          getVectorEmbeddingsByAgentId_def io_defs example_defs)
  from delete_chunks_then_document[of 1 1 ?w] h1 h2
  have "\<forall>e\<in>set [example_chunk 2 2 [98] 5]. emb_documentId e \<noteq> 1" by blast
  with h1 h2 show ?thesis by simp
qed

subsection \<open>What the storage functions do to the tables\<close>

lemma updateTrainingDocument_applied:
  assumes "connected w" "issued w \<notin> set (faults w)"
  shows "updateTrainingDocument ident data w =
           (if Suc (issued w) \<in> set (faults w) then Inl (QueryFailed (Suc (issued w)))
            else Inr (case filter (\<lambda>d. doc_id d = ident)
                             (map (\<lambda>d. if doc_id d = ident then apply_patch data d else d)
                                (trainingDocuments w)) of
                        [] \<Rightarrow> None | d # _ \<Rightarrow> Some d),
            w\<lparr>trainingDocuments :=
                 map (\<lambda>d. if doc_id d = ident then apply_patch data d else d)
                   (trainingDocuments w),
              issued := Suc (Suc (issued w))\<rparr>)"
  using assms by (simp add: updateTrainingDocument_def io_defs)

lemma apply_patch_failed:
  "doc_status (apply_patch \<lparr>patch_status = Some failed, patch_chunkCount = None\<rparr> d) = failed"
  by (simp add: apply_patch_def)

lemma update_failed_status:
  assumes "connected w" "issued w \<notin> set (faults w)"
  shows "\<forall>d\<in>set (trainingDocuments (snd (updateTrainingDocument documentId
                   \<lparr>patch_status = Some failed, patch_chunkCount = None\<rparr> w))).
            doc_id d = documentId \<longrightarrow> doc_status d = failed"
  unfolding updateTrainingDocument_applied[OF assms]
  by (auto simp: apply_patch_failed)

lemma update_returns:
  assumes "connected w" "issued w \<notin> set (faults w)" "Suc (issued w) \<notin> set (faults w)"
  shows "\<exists>x. fst (updateTrainingDocument ident data w) = Inr x"
  unfolding updateTrainingDocument_applied[OF assms(1,2)]
  using assms(3) by simp

lemma getOrCreateRagConfig_embeddings:
  "vectorEmbeddings (snd (getOrCreateRagConfig agentId w)) = vectorEmbeddings w"
  by (simp add: getOrCreateRagConfig_def io_defs split: list.splits)

lemma updateTrainingDocument_embeddings:
  "vectorEmbeddings (snd (updateTrainingDocument ident data w)) = vectorEmbeddings w"
  by (simp add: updateTrainingDocument_def io_defs)

lemma updateTrainingDocument_embeddings_eq:
  "updateTrainingDocument ident data w = (r, w') \<Longrightarrow> vectorEmbeddings w' = vectorEmbeddings w"
  using updateTrainingDocument_embeddings[of ident data w] by simp

lemma createVectorEmbedding_Inr:
  "createVectorEmbedding e w = (Inr x, w') \<Longrightarrow>
   vectorEmbeddings w' =
     vectorEmbeddings w @ [new_embedding (nextEmbeddingId w) (clock w (issued w)) e]"
  by (auto simp: createVectorEmbedding_def io_defs split: if_splits)

lemma createVectorEmbedding_prefix:
  "prefix (vectorEmbeddings w) (vectorEmbeddings (snd (createVectorEmbedding e w)))"
  by (simp add: createVectorEmbedding_def io_defs)

lemma store_chunks_prefix:
  "prefix (vectorEmbeddings w)
     (vectorEmbeddings (snd (store_chunks toLowerCase documentId agentId i chunks w)))"
proof (induction chunks arbitrary: i w)
  case Nil
  then show ?case by (simp add: io_return_def)
next
  case (Cons chunk rest)
  let ?c = "createVectorEmbedding
          \<lparr>ins_documentId = documentId, ins_agentId = agentId, ins_chunkIndex = i,
           ins_content = chunk, ins_embedding = createSimpleEmbedding toLowerCase chunk,
           ins_metadata_chunkSize = length chunk\<rparr> w"
  show ?case
  proof (cases ?c)
    case (Pair r w1)
    have p1: "prefix (vectorEmbeddings w) (vectorEmbeddings w1)"
      using createVectorEmbedding_prefix[of w] Pair by (metis snd_conv)
    show ?thesis
    proof (cases r)
      case (Inl err)
      then show ?thesis using Pair p1 by (simp add: io_bind_def)
    next
      case (Inr x)
      then show ?thesis using Pair p1 Cons.IH[where i="Suc i" and w=w1]
        by (simp add: io_bind_def)
    qed
  qed
qed

lemma store_chunks_Inr:
  "store_chunks toLowerCase documentId agentId i chunks w = (Inr u, w') \<Longrightarrow>
   \<exists>rows. vectorEmbeddings w' = vectorEmbeddings w @ rows
      \<and> map emb_content rows = chunks
      \<and> (\<forall>e\<in>set rows. emb_documentId e = documentId \<and> emb_agentId e = agentId)"
proof (induction chunks arbitrary: i w)
  case Nil
  then show ?case by (simp add: io_return_def)
next
  case (Cons chunk rest)
  let ?ins = "\<lparr>ins_documentId = documentId, ins_agentId = agentId, ins_chunkIndex = i,
           ins_content = chunk, ins_embedding = createSimpleEmbedding toLowerCase chunk,
           ins_metadata_chunkSize = length chunk\<rparr>"
  obtain r w1 where c: "createVectorEmbedding ?ins w = (r, w1)"
    by (cases "createVectorEmbedding ?ins w")
  from Cons.prems c obtain x where r: "r = Inr x"
    and rest: "store_chunks toLowerCase documentId agentId (Suc i) rest w1 = (Inr u, w')"
    by (cases r) (auto simp: io_bind_def)
  let ?row = "new_embedding (nextEmbeddingId w) (clock w (issued w)) ?ins"
  have w1: "vectorEmbeddings w1 = vectorEmbeddings w @ [?row]"
    using createVectorEmbedding_Inr c r by blast
  from Cons.IH[OF rest] obtain rows where rows:
    "vectorEmbeddings w' = vectorEmbeddings w1 @ rows" "map emb_content rows = rest"
    "\<forall>e\<in>set rows. emb_documentId e = documentId \<and> emb_agentId e = agentId"
    by blast
  show ?case using w1 rows
    by (intro exI[of _ "?row # rows"]) (simp add: new_embedding_def)
qed

lemma process_catch_eq:
  "process_catch documentId e w1 =
     (case fst (updateTrainingDocument documentId
                  \<lparr>patch_status = Some failed, patch_chunkCount = None\<rparr> w1) of
        Inl e' \<Rightarrow> Inl e' | Inr x \<Rightarrow> Inl e,
      snd (updateTrainingDocument documentId
             \<lparr>patch_status = Some failed, patch_chunkCount = None\<rparr> w1))"
  by (simp add: process_catch_def io_bind_def io_throw_def split: prod.splits sum.splits)

lemma chunkText_a: "chunkText [97::nat] 512 50 = Some [[97]]"
  by code_simp

lemma chunkText_nil: "chunkText ([]::nat list) 512 50 = Some []"
  by code_simp

text \<open>
  The ways out of the \<^verbatim>\<open>try\<close> block of the indexer: an error before the first
  chunk is written, with the table of chunks unchanged; or the loop over the chunks
  was entered, and nothing but the loop wrote to the table of chunks.
\<close>

lemma process_try_cases:
  assumes "process_try toLowerCase documentId agentId content w = Some (r, w')"
  obtains (config_error) e where "r = Inl e" "vectorEmbeddings w' = vectorEmbeddings w"
  | (stored) w2 chunkSize overlap chunks r1 w3 where
      "vectorEmbeddings w2 = vectorEmbeddings w"
      "chunkText content chunkSize overlap = Some chunks"
      "store_chunks toLowerCase documentId agentId 0 chunks w2 = (r1, w3)"
      "vectorEmbeddings w' = vectorEmbeddings w3"
      "r = Inr () \<longrightarrow> r1 = Inr ()"
proof -
  obtain rc w1 where g: "getOrCreateRagConfig agentId w = (rc, w1)"
    by (cases "getOrCreateRagConfig agentId w")
  have e1: "vectorEmbeddings w1 = vectorEmbeddings w"
    using getOrCreateRagConfig_embeddings[of agentId w] g by simp
  show thesis
  proof (cases rc)
    case (Inl e)
    then show ?thesis using assms g e1 by (auto simp: process_try_def intro: config_error)
  next
    case (Inr config)
    obtain ru w2 where u: "updateTrainingDocument documentId
        \<lparr>patch_status = Some processing, patch_chunkCount = None\<rparr> w1 = (ru, w2)"
      by (cases "updateTrainingDocument documentId
        \<lparr>patch_status = Some processing, patch_chunkCount = None\<rparr> w1")
    have e2: "vectorEmbeddings w2 = vectorEmbeddings w"
      using updateTrainingDocument_embeddings_eq[OF u] e1 by simp
    show ?thesis
    proof (cases ru)
      case (Inl e)
      then show ?thesis using assms g Inr u e2
        by (auto simp: process_try_def intro: config_error)
    next
      case ok: (Inr d)
      show ?thesis
      proof (cases config)
        case None
        then show ?thesis using assms g Inr u ok e2
          by (auto simp: process_try_def intro: config_error)
      next
        case (Some c)
        let ?cs = "int_or (cfg_chunkSize c) 512" and ?ov = "int_or (cfg_chunkOverlap c) 50"
        from assms g Inr u ok Some obtain chunks where
          ch: "chunkText content ?cs ?ov = Some chunks"
          by (auto simp: process_try_def split: option.splits)
        obtain r1 w3 where
          st: "store_chunks toLowerCase documentId agentId 0 chunks w2 = (r1, w3)"
          by (cases "store_chunks toLowerCase documentId agentId 0 chunks w2")
        have "vectorEmbeddings w' = vectorEmbeddings w3 \<and> (r = Inr () \<longrightarrow> r1 = Inr ())"
        proof (cases r1)
          case (Inl e)
          then have "r = Inl e \<and> w' = w3"
            using assms g Inr u ok Some ch st by (simp add: process_try_def io_bind_def)
          then show ?thesis by simp
        next
          case stored_all: (Inr x)
          obtain rf wf where f: "updateTrainingDocument documentId
                      \<lparr>patch_status = Some completed, patch_chunkCount = Some (length chunks)\<rparr> w3
                    = (rf, wf)"
            by (cases "updateTrainingDocument documentId
                      \<lparr>patch_status = Some completed, patch_chunkCount = Some (length chunks)\<rparr> w3")
          have "w' = wf"
            using assms g Inr u ok Some ch st stored_all f
            by (cases rf) (simp_all add: process_try_def io_bind_def io_return_def)
          then show ?thesis
            using updateTrainingDocument_embeddings_eq[OF f] stored_all by simp
        qed
        then have "vectorEmbeddings w' = vectorEmbeddings w3" "r = Inr () \<longrightarrow> r1 = Inr ()"
          by simp_all
        then show ?thesis using stored[OF e2 ch st] by blast
      qed
    qed
  qed
qed

subsection \<open>Processing a document again\<close>

text \<open>
  Claim C3 says that a second \<^verbatim>\<open>processDocumentForRAG\<close> first deletes the chunks of
  the document, so that no chunk of the earlier run is duplicated. The function
  never deletes a chunk: processing the one-letter document 1 gives the world with one
  chunk, and processing it again in that world leaves two chunks of document 1 with
  the same content.
\<close>

theorem reprocessing_duplicates_chunks:
  "processDocumentForRAG ascii_toLowerCase 1 1 [97]
      (example_world [] 0 [example_document pending (Some 0)] [default_config 1 1] [])
     = Some (Inr (), example_world [] 7 [example_document completed (Some 1)]
                        [default_config 1 1] [example_chunk 1 1 [97] 3])
   \<and> map_option (map emb_documentId \<circ> vectorEmbeddings \<circ> snd)
       (processDocumentForRAG ascii_toLowerCase 1 1 [97]
          (example_world [] 7 [example_document completed (Some 1)]
                        [default_config 1 1] [example_chunk 1 1 [97] 3]))
     = Some [1, 1]
   \<and> map_option (map emb_content \<circ> vectorEmbeddings \<circ> snd)
       (processDocumentForRAG ascii_toLowerCase 1 1 [97]
          (example_world [] 7 [example_document completed (Some 1)]
                        [default_config 1 1] [example_chunk 1 1 [97] 3]))
     = Some [[97], [97]]"
  by (simp add: processDocumentForRAG_def process_try_def process_catch_def
        getOrCreateRagConfig_def updateTrainingDocument_def apply_patch_def int_or_def
        createVectorEmbedding_def new_embedding_def
        chunkText_a io_defs example_defs)

text \<open>
  Claim C3, amended. \<^verbatim>\<open>processDocumentForRAG\<close> removes no chunk: the chunks stored
  before the call are still stored after it, in place, whatever the outcome; and when
  the call succeeds, the rows added after them are the chunks of the content, in
  order, under the document's id. A document processed twice has the chunks of both
  runs.
\<close>

theorem processDocumentForRAG_keeps_chunks:
  assumes "processDocumentForRAG toLowerCase documentId agentId content w = Some (r, w')"
  shows "prefix (vectorEmbeddings w) (vectorEmbeddings w')
         \<and> (r = Inr () \<longrightarrow>
              (\<exists>chunkSize overlap chunks rows.
                  chunkText content chunkSize overlap = Some chunks
                  \<and> vectorEmbeddings w' = vectorEmbeddings w @ rows
                  \<and> map emb_content rows = chunks
                  \<and> (\<forall>e\<in>set rows. emb_documentId e = documentId)))"
proof -
  obtain r0 w0 where t: "process_try toLowerCase documentId agentId content w = Some (r0, w0)"
    using assms by (auto simp: processDocumentForRAG_def split: option.splits)
  have fin: "vectorEmbeddings w' = vectorEmbeddings w0" "r = Inr () \<longrightarrow> r0 = Inr ()"
    using assms t
    by (cases r0; auto simp: processDocumentForRAG_def process_catch_eq
          updateTrainingDocument_embeddings split: sum.splits)+
  from t show ?thesis
  proof (cases rule: process_try_cases)
    case (config_error e)
    then show ?thesis using fin by auto
  next
    case (stored w2 chunkSize overlap chunks r1 w3)
    have "prefix (vectorEmbeddings w) (vectorEmbeddings w')"
      using store_chunks_prefix[of w2 toLowerCase documentId agentId 0 chunks] stored fin by simp
    moreover have "r = Inr () \<longrightarrow>
              (\<exists>chunkSize overlap chunks rows.
                  chunkText content chunkSize overlap = Some chunks
                  \<and> vectorEmbeddings w' = vectorEmbeddings w @ rows
                  \<and> map emb_content rows = chunks
                  \<and> (\<forall>e\<in>set rows. emb_documentId e = documentId))"
    proof
      assume "r = Inr ()"
      then have "r1 = Inr ()" using fin stored by simp
      from store_chunks_Inr[OF stored(3)[unfolded this]] obtain rows where
        "vectorEmbeddings w3 = vectorEmbeddings w2 @ rows" "map emb_content rows = chunks"
        "\<forall>e\<in>set rows. emb_documentId e = documentId \<and> emb_agentId e = agentId"
        by blast
      then show "\<exists>chunkSize overlap chunks rows.
                  chunkText content chunkSize overlap = Some chunks
                  \<and> vectorEmbeddings w' = vectorEmbeddings w @ rows
                  \<and> map emb_content rows = chunks
                  \<and> (\<forall>e\<in>set rows. emb_documentId e = documentId)"
        using stored fin by auto
    qed
    ultimately show ?thesis by blast
  qed
qed

theorem processDocumentForRAG_keeps_chunks_witness:
  "processDocumentForRAG ascii_toLowerCase 1 1 [97]
      (example_world [] 7 [example_document completed (Some 1)]
         [default_config 1 1] [example_chunk 1 1 [97] 3])
     = Some (Inr (), example_world [] 14 [example_document completed (Some 1)]
                        [default_config 1 1]
                        [example_chunk 1 1 [97] 3, example_chunk 2 1 [97] 10])
   \<and> prefix [example_chunk 1 1 [97] 3]
        [example_chunk 1 1 [97] 3, example_chunk 2 1 [97] 10]
   \<and> (\<exists>chunkSize overlap chunks rows.
         chunkText [97] chunkSize overlap = Some chunks
         \<and> [example_chunk 1 1 [97] 3, example_chunk 2 1 [97] 10]
             = [example_chunk 1 1 [97] 3] @ rows
         \<and> map emb_content rows = chunks
         \<and> (\<forall>e\<in>set rows. emb_documentId e = 1))"
proof -
  have h: "processDocumentForRAG ascii_toLowerCase 1 1 [97]
      (example_world [] 7 [example_document completed (Some 1)]
         [default_config 1 1] [example_chunk 1 1 [97] 3])
     = Some (Inr (), example_world [] 14 [example_document completed (Some 1)]
                        [default_config 1 1]
                        [example_chunk 1 1 [97] 3, example_chunk 2 1 [97] 10])"
    by (simp add: processDocumentForRAG_def process_try_def process_catch_def
        getOrCreateRagConfig_def updateTrainingDocument_def apply_patch_def int_or_def
        createVectorEmbedding_def new_embedding_def
        chunkText_a io_defs example_defs)
  from processDocumentForRAG_keeps_chunks[OF h] h show ?thesis
    by (simp add: example_world_def)
qed

subsection \<open>A failure while a document is processed\<close>

text \<open>
  Claim C9 says that when a step of the indexer throws, the status becomes
  \<^verbatim>\<open>failed\<close>, the error thrown is the original one, and the document is never left
  \<^verbatim>\<open>completed\<close>. The \<^verbatim>\<open>catch\<close> clause writes the status with an unguarded storage call.
  In the world below the database rejects the queries 4 and 5: the status
  \<^verbatim>\<open>completed\<close> is written by query 3, the read that follows it is rejected, and so is
  the write of \<^verbatim>\<open>failed\<close>. The call throws the second rejection, and the document is
  left \<^verbatim>\<open>completed\<close>.
\<close>

theorem processDocumentForRAG_left_completed:
  "map_option fst (process_try ascii_toLowerCase 1 1 []
      (example_world [4, 5] 0 [example_document pending (Some 0)] [default_config 1 1] []))
     = Some (Inl (QueryFailed 4))
   \<and> map_option fst (processDocumentForRAG ascii_toLowerCase 1 1 []
      (example_world [4, 5] 0 [example_document pending (Some 0)] [default_config 1 1] []))
     = Some (Inl (QueryFailed 5))
   \<and> map_option (map doc_status \<circ> trainingDocuments \<circ> snd)
       (processDocumentForRAG ascii_toLowerCase 1 1 []
         (example_world [4, 5] 0 [example_document pending (Some 0)] [default_config 1 1] []))
     = Some [completed]"
  by (simp add: processDocumentForRAG_def process_try_def process_catch_def
        getOrCreateRagConfig_def updateTrainingDocument_def apply_patch_def int_or_def
        chunkText_nil io_defs example_defs)

text \<open>
  Claim C9, amended. When the \<^verbatim>\<open>try\<close> block of \<^verbatim>\<open>processDocumentForRAG\<close> throws and
  the database accepts the \<^verbatim>\<open>UPDATE\<close> of the \<^verbatim>\<open>catch\<close> clause, the call throws and every
  document row with that id has the status \<^verbatim>\<open>failed\<close> (so none is \<^verbatim>\<open>completed\<close>); and
  when the database also accepts the read that follows the \<^verbatim>\<open>UPDATE\<close>, the error thrown
  is the original one.
\<close>

theorem processDocumentForRAG_failure:
  assumes "process_try toLowerCase documentId agentId content w = Some (Inl e, w1)"
    and "connected w1" and "issued w1 \<notin> set (faults w1)"
  shows "\<exists>e' w'. processDocumentForRAG toLowerCase documentId agentId content w = Some (Inl e', w')
           \<and> (\<forall>d\<in>set (trainingDocuments w'). doc_id d = documentId \<longrightarrow> doc_status d = failed)
           \<and> (Suc (issued w1) \<notin> set (faults w1) \<longrightarrow> e' = e)"
proof -
  let ?u = "updateTrainingDocument documentId
              \<lparr>patch_status = Some failed, patch_chunkCount = None\<rparr> w1"
  let ?e' = "case fst ?u of Inl e' \<Rightarrow> e' | Inr x \<Rightarrow> e"
  have p: "processDocumentForRAG toLowerCase documentId agentId content w
             = Some (Inl ?e', snd ?u)"
    using assms(1) by (simp add: processDocumentForRAG_def process_catch_eq split: sum.splits)
  have s: "\<forall>d\<in>set (trainingDocuments (snd ?u)). doc_id d = documentId \<longrightarrow> doc_status d = failed"
    by (rule update_failed_status[OF assms(2,3)])
  have "Suc (issued w1) \<notin> set (faults w1) \<longrightarrow> ?e' = e"
  proof
    assume "Suc (issued w1) \<notin> set (faults w1)"
    from update_returns[OF assms(2,3) this, of documentId
           "\<lparr>patch_status = Some failed, patch_chunkCount = None\<rparr>"]
    obtain x where "fst ?u = Inr x" by blast
    then show "?e' = e" by simp
  qed
  with p s show ?thesis by blast
qed

theorem processDocumentForRAG_failure_witness:
  "process_try ascii_toLowerCase 1 1 [97]
      (example_world [3] 0 [example_document pending (Some 0)] [default_config 1 1] [])
     = Some (Inl (QueryFailed 3),
             example_world [3] 4 [example_document processing (Some 0)] [default_config 1 1] [])
   \<and> connected (example_world [3] 4 [example_document processing (Some 0)]
                  [default_config 1 1] [])
   \<and> 4 \<notin> set [3::nat] \<and> 5 \<notin> set [3::nat]
   \<and> (\<exists>w'. processDocumentForRAG ascii_toLowerCase 1 1 [97]
         (example_world [3] 0 [example_document pending (Some 0)] [default_config 1 1] [])
           = Some (Inl (QueryFailed 3), w')
         \<and> (\<forall>d\<in>set (trainingDocuments w'). doc_id d = 1 \<longrightarrow> doc_status d = failed))"
proof -
  let ?w1 = "example_world [3] 4 [example_document processing (Some 0)] [default_config 1 1] []"
  have h1: "process_try ascii_toLowerCase 1 1 [97]
      (example_world [3] 0 [example_document pending (Some 0)] [default_config 1 1] [])
     = Some (Inl (QueryFailed 3), ?w1)"
    by (simp add: process_try_def getOrCreateRagConfig_def updateTrainingDocument_def
          apply_patch_def int_or_def createVectorEmbedding_def chunkText_a io_defs example_defs)
  have h2: "connected ?w1" by (simp add: example_world_def)
  have h3: "issued ?w1 \<notin> set (faults ?w1)" by (simp add: example_world_def)
  have h4: "Suc (issued ?w1) \<notin> set (faults ?w1)" by (simp add: example_world_def)
  from processDocumentForRAG_failure[OF h1 h2 h3] h4
  have "\<exists>w'. processDocumentForRAG ascii_toLowerCase 1 1 [97]
         (example_world [3] 0 [example_document pending (Some 0)] [default_config 1 1] [])
           = Some (Inl (QueryFailed 3), w')
         \<and> (\<forall>d\<in>set (trainingDocuments w'). doc_id d = 1 \<longrightarrow> doc_status d = failed)"
    by blast
  with h1 h2 show ?thesis by simp
qed

section \<open>The retriever\<close>

subsection \<open>Slicing and sorting\<close>

lemma js_slice_from_0:
  "js_slice xs 0 k = (if k < 0 then take (nat (int (length xs) + k)) xs else take (nat k) xs)"
  by (auto simp: js_slice_def Let_def min_def max_def)

lemma length_js_slice_pos: "0 < k \<Longrightarrow> length (js_slice xs 0 k) \<le> nat k"
  by (simp add: js_slice_from_0)

lemma set_js_insert: "set (js_insert cmp x ys) = insert x (set ys)"
  by (induction ys) auto

lemma set_js_sort: "set (js_sort cmp xs) = set xs"
  by (induction xs) (auto simp: js_sort_def set_js_insert)

lemma js_sort_Cons: "js_sort cmp (x # xs) = js_insert cmp x (js_sort cmp xs)"
  by (simp add: js_sort_def)

lemma js_sort_Nil: "js_sort cmp [] = []"
  by (simp add: js_sort_def)

lemma filter_js_insert_other:
  "\<not> P x \<Longrightarrow> filter P (js_insert cmp x ys) = filter P ys"
  by (induction ys) auto

lemma filter_js_insert_same:
  "P x \<Longrightarrow> \<forall>y. js_positive (cmp x y) \<longrightarrow> \<not> P y \<Longrightarrow>
   filter P (js_insert cmp x ys) = x # filter P ys"
  by (induction ys) auto

lemma js_sort_stable:
  assumes "\<forall>x y. P x \<and> js_positive (cmp x y) \<longrightarrow> \<not> P y"
  shows "filter P (js_sort cmp xs) = filter P xs"
proof (induction xs)
  case Nil
  show ?case by (simp add: js_sort_Nil)
next
  case (Cons x xs)
  show ?case
  proof (cases "P x")
    case True
    then have "filter P (js_insert cmp x (js_sort cmp xs)) = x # filter P (js_sort cmp xs)"
      using assms by (intro filter_js_insert_same) auto
    then show ?thesis using True Cons by (simp add: js_sort_Cons)
  next
    case False
    then show ?thesis using Cons by (simp add: js_sort_Cons filter_js_insert_other)
  qed
qed

lemma js_sub_self_not_positive: "\<not> js_positive (js_sub v v)"
  by (cases v) auto

lemma js_sort_score_stable:
  "filter (\<lambda>item. snd item = v) (js_sort (\<lambda>a b. js_sub (snd b) (snd a)) xs)
     = filter (\<lambda>item. snd item = v) xs"
  by (rule js_sort_stable) (auto simp: js_sub_self_not_positive)

lemma ties_sorted:
  "(\<And>v. sorted_wrt Q (filter (\<lambda>p. snd p = v) ys)) \<Longrightarrow>
   sorted_wrt (\<lambda>a b. snd a = snd b \<longrightarrow> Q a b) ys"
proof (induction ys)
  case Nil
  show ?case by simp
next
  case (Cons y ys)
  have tail: "sorted_wrt Q (filter (\<lambda>p. snd p = v) ys)" for v
    using Cons.prems[of v] by (cases "snd y = v") auto
  have "\<forall>z\<in>set ys. snd y = snd z \<longrightarrow> Q y z"
    using Cons.prems[of "snd y"] by auto
  then show ?case using Cons.IH[OF tail] by simp
qed

lemma js_antisym: "js_positive (js_sub y x) \<Longrightarrow> \<not> js_positive (js_sub x y)"
  by (cases x; cases y) auto

lemma js_trans:
  "y \<noteq> NaN \<Longrightarrow> \<not> js_positive (js_sub y x) \<Longrightarrow> \<not> js_positive (js_sub z y) \<Longrightarrow>
   \<not> js_positive (js_sub z x)"
  by (cases x; cases y; cases z) auto

lemma sorted_js_insert:
  assumes "sorted_wrt (\<lambda>a b. \<not> js_positive (js_sub (snd b) (snd a))) ys"
    and "\<forall>y\<in>set ys. snd y \<noteq> NaN"
  shows "sorted_wrt (\<lambda>a b. \<not> js_positive (js_sub (snd b) (snd a)))
           (js_insert (\<lambda>a b. js_sub (snd b) (snd a)) x ys)"
  using assms
proof (induction ys)
  case Nil
  show ?case by simp
next
  case (Cons y ys)
  show ?case
  proof (cases "js_positive (js_sub (snd y) (snd x))")
    case True
    then have "\<not> js_positive (js_sub (snd x) (snd y))" by (rule js_antisym)
    then show ?thesis using True Cons by (auto simp: set_js_insert)
  next
    case False
    have "\<forall>z\<in>set ys. \<not> js_positive (js_sub (snd z) (snd x))"
      using False Cons.prems js_trans[of "snd y" "snd x"] by auto
    then show ?thesis using False Cons.prems by auto
  qed
qed

lemma sorted_js_sort:
  "\<forall>y\<in>set xs. snd y \<noteq> NaN \<Longrightarrow>
   sorted_wrt (\<lambda>a b. \<not> js_positive (js_sub (snd b) (snd a)))
     (js_sort (\<lambda>a b. js_sub (snd b) (snd a)) xs)"
proof (induction xs)
  case Nil
  show ?case by (simp add: js_sort_Nil)
next
  case (Cons x xs)
  then show ?case
    by (simp add: js_sort_Cons sorted_js_insert set_js_sort)
qed

lemma js_ge_not_NaN: "js_ge v t \<Longrightarrow> v \<noteq> NaN"
  by (cases v) auto

lemma scan_sorted:
  assumes "fst (getVectorEmbeddingsByAgentId agentId w) = Inr embeddings"
  shows "sorted_wrt (\<lambda>x y. emb_createdAt y \<le> emb_createdAt x) embeddings"
proof -
  have "sorted_wrt (\<lambda>x y. emb_createdAt y \<le> emb_createdAt x)
          (sort_key (\<lambda>e. - emb_createdAt e) xs)" for xs :: "vectorEmbedding list"
    using sorted_sort_key[of "\<lambda>e. - emb_createdAt e" xs] by (simp add: sorted_map)
  then show ?thesis using assms
    by (auto simp: getVectorEmbeddingsByAgentId_def io_return_def query_def Let_def split: if_splits)
qed

subsection \<open>A context that is returned\<close>

lemma retrieve_Some:
  assumes "fst (retrieveRelevantContext toLowerCase agentId query_text w) = Inr (Some context)"
  obtains config w1 embeddings where
    "getOrCreateRagConfig agentId w = (Inr (Some config), w1)"
    "fst (getVectorEmbeddingsByAgentId agentId w1) = Inr embeddings"
    "scoredEmbeddings config (createSimpleEmbedding toLowerCase query_text) embeddings \<noteq> []"
    "context = js_join [10, 10] (map (\<lambda>item. emb_content (fst item))
       (scoredEmbeddings config (createSimpleEmbedding toLowerCase query_text) embeddings))"
proof -
  obtain rc w1 where g: "getOrCreateRagConfig agentId w = (rc, w1)"
    by (cases "getOrCreateRagConfig agentId w")
  obtain rs w2 where s: "getVectorEmbeddingsByAgentId agentId w1 = (rs, w2)"
    by (cases "getVectorEmbeddingsByAgentId agentId w1")
  from assms g obtain config where rc: "rc = Inr (Some config)"
    by (cases rc; cases "projr rc")
       (auto simp: retrieveRelevantContext_def retrieve_try_def io_catch_def io_bind_def
          io_return_def io_throw_def)
  from assms g rc s obtain embeddings where rs: "rs = Inr embeddings"
    by (cases rs)
       (auto simp: retrieveRelevantContext_def retrieve_try_def io_catch_def io_bind_def
          io_return_def split: if_splits)
  let ?scored = "scoredEmbeddings config (createSimpleEmbedding toLowerCase query_text) embeddings"
  from assms g rc s rs have "?scored \<noteq> [] \<and>
      context = js_join [10, 10] (map (\<lambda>item. emb_content (fst item)) ?scored)"
    by (auto simp: retrieveRelevantContext_def retrieve_try_def io_catch_def io_bind_def
          io_return_def Let_def split: if_splits)
  then show thesis using that[of config w1 embeddings] g rc s rs by simp
qed

lemma length_js_join:
  "xs \<noteq> [] \<Longrightarrow>
   length (js_join sep xs) = sum_list (map length xs) + length sep * (length xs - 1)"
  by (induction sep xs rule: js_join.induct) auto

lemma length_scoredEmbeddings:
  "0 < int_or (cfg_topK config) 3 \<Longrightarrow>
   length (scoredEmbeddings config queryEmbedding embeddings) \<le> nat (int_or (cfg_topK config) 3)"
  unfolding scoredEmbeddings_def by (rule length_js_slice_pos)

lemma sorted_wrt_js_slice: "sorted_wrt R xs \<Longrightarrow> sorted_wrt R (js_slice xs 0 k)"
  by (simp add: js_slice_from_0)

lemmas retrieve_defs = retrieveRelevantContext_def retrieve_try_def getOrCreateRagConfig_def
  getVectorEmbeddingsByAgentId_def scoredEmbeddings_def score_of_def threshold_of_def
  int_or_def js_sort_def js_slice_def

subsection \<open>The ranked chunks and an example\<close>

lemma set_js_slice: "set (js_slice xs 0 k) \<subseteq> set xs"
  by (auto simp: js_slice_from_0 dest: in_set_takeD)

lemma scoredEmbeddings_items:
  "\<forall>item\<in>set (scoredEmbeddings config queryEmbedding embeddings).
      fst item \<in> set embeddings \<and> snd item = score_of queryEmbedding (fst item)
      \<and> js_ge (snd item) (threshold_of config)"
  using set_js_slice[of "js_sort (\<lambda>a b. js_sub (snd b) (snd a))
          (filter (\<lambda>item. js_ge (snd item) (threshold_of config))
             (map (\<lambda>embedding. (embedding, score_of queryEmbedding embedding)) embeddings))"
          "int_or (cfg_topK config) 3"]
  by (auto simp: scoredEmbeddings_def set_js_sort)

lemma example_retrieval:
  "fst (retrieveRelevantContext ascii_toLowerCase 1 [97]
        (example_world [] 0 [] [default_config 1 1]
           [example_chunk 1 1 [97] 10, example_chunk 2 1 [65] 20]))
      = Inr (Some [65, 10, 10, 97])"
  by (simp add: retrieve_defs io_defs example_defs createSimpleEmbedding_A score_a_a)

subsection \<open>The order of chunks with equal scores\<close>

text \<open>
  Claim C5 says that of two chunks with equal scores that pass the threshold, the one
  created earlier comes first in the context. The scan of the agent's chunks is
  \<^verbatim>\<open>ORDER BY createdAt DESC\<close> and the sort is stable: below, the chunk \<^verbatim>\<open>"a"\<close> created at
  time 10 and the chunk \<^verbatim>\<open>"A"\<close> created at time 20 both score 1 against the query
  \<^verbatim>\<open>"a"\<close>, and the context is \<^verbatim>\<open>"A\n\na"\<close>, the later chunk first.
\<close>

theorem ties_newest_first_example:
  "emb_createdAt (example_chunk 1 1 [97] 10) < emb_createdAt (example_chunk 2 1 [65] 20)
   \<and> score_of (createSimpleEmbedding ascii_toLowerCase [97]) (example_chunk 1 1 [97] 10) = Num 1
   \<and> score_of (createSimpleEmbedding ascii_toLowerCase [97]) (example_chunk 2 1 [65] 20) = Num 1
   \<and> js_ge (Num 1) (threshold_of (default_config 1 1))
   \<and> fst (retrieveRelevantContext ascii_toLowerCase 1 [97]
        (example_world [] 0 [] [default_config 1 1]
           [example_chunk 1 1 [97] 10, example_chunk 2 1 [65] 20]))
      = Inr (Some [65, 10, 10, 97])"
  by (simp add: retrieve_defs io_defs example_defs createSimpleEmbedding_A score_a_a)

text \<open>
  Claim C5, amended. A returned context is the join of the contents of the ranked
  chunks: rows of the agent's scan with their scores, all passing the threshold. No
  ranked chunk has a higher score than one before it, and chunks with equal scores
  keep the order of the storage scan, newest first: of two ranked chunks with equal
  scores, the one that comes first was not created before the other.
\<close>

theorem ranking_ties_newest_first:
  assumes "fst (retrieveRelevantContext toLowerCase agentId query_text w) = Inr (Some context)"
  shows "\<exists>config w1 embeddings ranked.
           getOrCreateRagConfig agentId w = (Inr (Some config), w1)
           \<and> fst (getVectorEmbeddingsByAgentId agentId w1) = Inr embeddings
           \<and> ranked = scoredEmbeddings config (createSimpleEmbedding toLowerCase query_text)
                        embeddings
           \<and> context = js_join [10, 10] (map (\<lambda>item. emb_content (fst item)) ranked)
           \<and> (\<forall>item\<in>set ranked.
                 fst item \<in> set embeddings
                 \<and> snd item = score_of (createSimpleEmbedding toLowerCase query_text) (fst item)
                 \<and> js_ge (snd item) (threshold_of config))
           \<and> sorted_wrt (\<lambda>a b. \<not> js_positive (js_sub (snd b) (snd a))) ranked
           \<and> sorted_wrt (\<lambda>a b. snd a = snd b
                            \<longrightarrow> emb_createdAt (fst b) \<le> emb_createdAt (fst a)) ranked"
proof -
  from assms obtain config w1 embeddings where r:
    "getOrCreateRagConfig agentId w = (Inr (Some config), w1)"
    "fst (getVectorEmbeddingsByAgentId agentId w1) = Inr embeddings"
    "scoredEmbeddings config (createSimpleEmbedding toLowerCase query_text) embeddings \<noteq> []"
    "context = js_join [10, 10] (map (\<lambda>item. emb_content (fst item))
       (scoredEmbeddings config (createSimpleEmbedding toLowerCase query_text) embeddings))"
    by (rule retrieve_Some)
  let ?q = "createSimpleEmbedding toLowerCase query_text"
  let ?passed = "filter (\<lambda>item. js_ge (snd item) (threshold_of config))
             (map (\<lambda>embedding. (embedding, score_of ?q embedding)) embeddings)"
  let ?sorted = "js_sort (\<lambda>a b. js_sub (snd b) (snd a)) ?passed"
  let ?ranked = "scoredEmbeddings config ?q embeddings"
  let ?Q = "\<lambda>a b. emb_createdAt (fst b) \<le> emb_createdAt (fst a)"
  have ranked: "?ranked = js_slice ?sorted 0 (int_or (cfg_topK config) 3)"
    by (simp add: scoredEmbeddings_def)
  have "\<forall>y\<in>set ?passed. snd y \<noteq> NaN" by (auto dest: js_ge_not_NaN)
  then have desc: "sorted_wrt (\<lambda>a b. \<not> js_positive (js_sub (snd b) (snd a))) ?sorted"
    by (rule sorted_js_sort)
  have "sorted_wrt ?Q ?passed"
    using scan_sorted[OF r(2)] by (intro sorted_wrt_filter) (simp add: sorted_wrt_map)
  then have "sorted_wrt ?Q (filter (\<lambda>p. snd p = v) ?sorted)" for v
    by (simp only: js_sort_score_stable sorted_wrt_filter)
  then have ties: "sorted_wrt (\<lambda>a b. snd a = snd b \<longrightarrow> ?Q a b) ?sorted"
    by (rule ties_sorted)
  have a: "sorted_wrt (\<lambda>a b. \<not> js_positive (js_sub (snd b) (snd a))) ?ranked"
    unfolding ranked using desc by (rule sorted_wrt_js_slice)
  have b: "sorted_wrt (\<lambda>a b. snd a = snd b \<longrightarrow> ?Q a b) ?ranked"
    unfolding ranked using ties by (rule sorted_wrt_js_slice)
  show ?thesis
  proof (intro exI conjI)
    show "getOrCreateRagConfig agentId w = (Inr (Some config), w1)" by (rule r(1))
    show "fst (getVectorEmbeddingsByAgentId agentId w1) = Inr embeddings" by (rule r(2))
    show "?ranked = scoredEmbeddings config ?q embeddings" by (rule refl)
    show "context = js_join [10, 10] (map (\<lambda>item. emb_content (fst item)) ?ranked)"
      by (rule r(4))
    show "\<forall>item\<in>set ?ranked. fst item \<in> set embeddings
            \<and> snd item = score_of ?q (fst item) \<and> js_ge (snd item) (threshold_of config)"
      by (rule scoredEmbeddings_items)
    show "sorted_wrt (\<lambda>a b. \<not> js_positive (js_sub (snd b) (snd a))) ?ranked" by (rule a)
    show "sorted_wrt (\<lambda>a b. snd a = snd b \<longrightarrow> ?Q a b) ?ranked" by (rule b)
  qed
qed

theorem ranking_ties_newest_first_witness:
  "fst (retrieveRelevantContext ascii_toLowerCase 1 [97]
        (example_world [] 0 [] [default_config 1 1]
           [example_chunk 1 1 [97] 10, example_chunk 2 1 [65] 20]))
      = Inr (Some [65, 10, 10, 97])
   \<and> (\<exists>config w1 embeddings ranked.
           getOrCreateRagConfig 1 (example_world [] 0 [] [default_config 1 1]
               [example_chunk 1 1 [97] 10, example_chunk 2 1 [65] 20])
             = (Inr (Some config), w1)
           \<and> fst (getVectorEmbeddingsByAgentId 1 w1) = Inr embeddings
           \<and> ranked = scoredEmbeddings config (createSimpleEmbedding ascii_toLowerCase [97])
                        embeddings
           \<and> [65, 10, 10, 97] = js_join [10, 10] (map (\<lambda>item. emb_content (fst item)) ranked)
           \<and> (\<forall>item\<in>set ranked.
                 fst item \<in> set embeddings
                 \<and> snd item = score_of (createSimpleEmbedding ascii_toLowerCase [97]) (fst item)
                 \<and> js_ge (snd item) (threshold_of config))
           \<and> sorted_wrt (\<lambda>a b. \<not> js_positive (js_sub (snd b) (snd a))) ranked
           \<and> sorted_wrt (\<lambda>a b. snd a = snd b
                            \<longrightarrow> emb_createdAt (fst b) \<le> emb_createdAt (fst a)) ranked)"
  using example_retrieval ranking_ties_newest_first[OF example_retrieval] by (rule conjI)

subsection \<open>The number of chunks in the context\<close>

text \<open>
  Claim C6 says that the context concatenates at most \<open>topK\<close> chunks for every value
  of \<open>topK\<close>, the value \<open>0\<close> included. The code slices with \<^verbatim>\<open>config.topK || 3\<close>, which
  is \<open>3\<close> for \<open>topK = 0\<close>: below, with \<open>topK = 0\<close>, the context holds two chunks and one
  separator.
\<close>

theorem topK_zero_returns_chunks:
  "cfg_topK ((default_config 1 1)\<lparr>cfg_topK := Some 0\<rparr>) = Some 0
   \<and> fst (retrieveRelevantContext ascii_toLowerCase 1 [97]
        (example_world [] 0 [] [(default_config 1 1)\<lparr>cfg_topK := Some 0\<rparr>]
           [example_chunk 1 1 [97] 10, example_chunk 2 1 [65] 20]))
      = Inr (Some [65, 10, 10, 97])"
  by (simp add: retrieve_defs io_defs example_defs createSimpleEmbedding_A score_a_a)

text \<open>
  Claim C6, amended. A returned context is the join, with the blank-line separator
  between neighbours, of the contents of the \<open>n \<ge> 1\<close> ranked chunks (so its length is
  the lengths of the contents plus two units for each of the \<open>n - 1\<close> separators); \<open>n\<close>
  is at most \<open>topK\<close> when \<open>topK \<ge> 1\<close>, and at most the default \<open>3\<close> when \<open>topK\<close> is \<open>0\<close> or
  null.
\<close>

theorem retrieveRelevantContext_topK:
  assumes "fst (retrieveRelevantContext toLowerCase agentId query_text w) = Inr (Some context)"
  shows "\<exists>config w1 embeddings ranked.
           getOrCreateRagConfig agentId w = (Inr (Some config), w1)
           \<and> fst (getVectorEmbeddingsByAgentId agentId w1) = Inr embeddings
           \<and> ranked = scoredEmbeddings config (createSimpleEmbedding toLowerCase query_text)
                        embeddings
           \<and> ranked \<noteq> []
           \<and> context = js_join [10, 10] (map (\<lambda>item. emb_content (fst item)) ranked)
           \<and> length context = sum_list (map (\<lambda>item. length (emb_content (fst item))) ranked)
                                + 2 * (length ranked - 1)
           \<and> (\<forall>k. cfg_topK config = Some k \<and> 0 < k \<longrightarrow> length ranked \<le> nat k)
           \<and> (cfg_topK config = None \<or> cfg_topK config = Some 0 \<longrightarrow> length ranked \<le> 3)"
proof -
  from assms obtain config w1 embeddings where r:
    "getOrCreateRagConfig agentId w = (Inr (Some config), w1)"
    "fst (getVectorEmbeddingsByAgentId agentId w1) = Inr embeddings"
    "scoredEmbeddings config (createSimpleEmbedding toLowerCase query_text) embeddings \<noteq> []"
    "context = js_join [10, 10] (map (\<lambda>item. emb_content (fst item))
       (scoredEmbeddings config (createSimpleEmbedding toLowerCase query_text) embeddings))"
    by (rule retrieve_Some)
  let ?q = "createSimpleEmbedding toLowerCase query_text"
  let ?ranked = "scoredEmbeddings config ?q embeddings"
  have len: "length context = sum_list (map (\<lambda>item. length (emb_content (fst item))) ?ranked)
                                + 2 * (length ?ranked - 1)"
    using r(3) by (simp add: r(4) length_js_join comp_def)
  have k: "\<forall>k. cfg_topK config = Some k \<and> 0 < k \<longrightarrow> length ?ranked \<le> nat k"
    using length_scoredEmbeddings[of config] by (auto simp: int_or_def)
  have d: "cfg_topK config = None \<or> cfg_topK config = Some 0 \<longrightarrow> length ?ranked \<le> 3"
    using length_scoredEmbeddings[of config] by (auto simp: int_or_def)
  show ?thesis
  proof (intro exI conjI)
    show "getOrCreateRagConfig agentId w = (Inr (Some config), w1)" by (rule r(1))
    show "fst (getVectorEmbeddingsByAgentId agentId w1) = Inr embeddings" by (rule r(2))
    show "?ranked = scoredEmbeddings config ?q embeddings" by (rule refl)
    show "?ranked \<noteq> []" by (rule r(3))
    show "context = js_join [10, 10] (map (\<lambda>item. emb_content (fst item)) ?ranked)"
      by (rule r(4))
    show "length context = sum_list (map (\<lambda>item. length (emb_content (fst item))) ?ranked)
                                + 2 * (length ?ranked - 1)" by (rule len)
    show "\<forall>k. cfg_topK config = Some k \<and> 0 < k \<longrightarrow> length ?ranked \<le> nat k" by (rule k)
    show "cfg_topK config = None \<or> cfg_topK config = Some 0 \<longrightarrow> length ?ranked \<le> 3"
      by (rule d)
  qed
qed

theorem retrieveRelevantContext_topK_witness:
  "fst (retrieveRelevantContext ascii_toLowerCase 1 [97]
        (example_world [] 0 [] [default_config 1 1]
           [example_chunk 1 1 [97] 10, example_chunk 2 1 [65] 20]))
      = Inr (Some [65, 10, 10, 97])
   \<and> cfg_topK (default_config 1 1) = Some 3
   \<and> (\<exists>w1 embeddings ranked.
           getOrCreateRagConfig 1 (example_world [] 0 [] [default_config 1 1]
               [example_chunk 1 1 [97] 10, example_chunk 2 1 [65] 20])
             = (Inr (Some (default_config 1 1)), w1)
           \<and> fst (getVectorEmbeddingsByAgentId 1 w1) = Inr embeddings
           \<and> ranked = scoredEmbeddings (default_config 1 1)
                        (createSimpleEmbedding ascii_toLowerCase [97]) embeddings
           \<and> [65, 10, 10, 97] = js_join [10, 10] (map (\<lambda>item. emb_content (fst item)) ranked)
           \<and> length ranked \<le> 3)"
proof -
  let ?w = "example_world [] 0 [] [default_config 1 1]
              [example_chunk 1 1 [97] 10, example_chunk 2 1 [65] 20]"
  have c: "fst (getOrCreateRagConfig 1 ?w) = Inr (Some (default_config 1 1))"
    by (simp add: getOrCreateRagConfig_def io_defs example_defs)
  have k: "cfg_topK (default_config 1 1) = Some 3" by (simp add: default_config_def)
  from retrieveRelevantContext_topK[OF example_retrieval]
  obtain config w1 embeddings ranked where r:
    "getOrCreateRagConfig 1 ?w = (Inr (Some config), w1)"
    "fst (getVectorEmbeddingsByAgentId 1 w1) = Inr embeddings"
    "ranked = scoredEmbeddings config (createSimpleEmbedding ascii_toLowerCase [97]) embeddings"
    "[65, 10, 10, 97] = js_join [10, 10] (map (\<lambda>item. emb_content (fst item)) ranked)"
    "\<forall>k. cfg_topK config = Some k \<and> 0 < k \<longrightarrow> length ranked \<le> nat k"
    by blast
  from r(1) c have config: "config = default_config 1 1" by simp
  with r(5) k have "length ranked \<le> 3" by auto
  with r(1-4) config have "\<exists>w1 embeddings ranked.
           getOrCreateRagConfig 1 ?w = (Inr (Some (default_config 1 1)), w1)
           \<and> fst (getVectorEmbeddingsByAgentId 1 w1) = Inr embeddings
           \<and> ranked = scoredEmbeddings (default_config 1 1)
                        (createSimpleEmbedding ascii_toLowerCase [97]) embeddings
           \<and> [65, 10, 10, 97] = js_join [10, 10] (map (\<lambda>item. emb_content (fst item)) ranked)
           \<and> length ranked \<le> 3"
    by blast
  with example_retrieval k show ?thesis by (intro conjI)
qed

end
